theory Spec2Isabelle
  imports Complex_Main "HOL-Library.AList"
begin

chapter \<open>The model\<close>


section \<open>Strings\<close>

text \<open>
  JavaScript strings are modelled as \<open>string\<close> (lists of characters). The model covers
  ASCII text: \<open>toLowerCase\<close> maps \<open>A\<close>..\<open>Z\<close> to \<open>a\<close>..\<open>z\<close>, and the regular
  expression class \<open>\s\<close> is the six ASCII white-space characters.
\<close>

definition isWhitespace :: "char \<Rightarrow> bool" where
  "isWhitespace c = (c = CHR '' '' \<or> c = CHR 0x09 \<or> c = CHR 0x0A \<or> c = CHR 0x0B
     \<or> c = CHR 0x0C \<or> c = CHR 0x0D)"

definition lowerChar :: "char \<Rightarrow> char" where
  "lowerChar c = (let n = (of_char c :: nat)
     in if 65 \<le> n \<and> n \<le> 90 then char_of (n + 32) else c)"

definition toLowerCase :: "string \<Rightarrow> string" where
  "toLowerCase s = map lowerChar s"

text \<open>\<open>s.split(' ')\<close>: every single space is a separator; \<open>"".split(' ')\<close> is \<open>[""]\<close>.\<close>

fun splitSpaceFrom :: "string \<Rightarrow> string \<Rightarrow> string list" where
  "splitSpaceFrom cur [] = [cur]"
| "splitSpaceFrom cur (c # cs) =
     (if c = CHR '' '' then cur # splitSpaceFrom [] cs else splitSpaceFrom (cur @ [c]) cs)"

definition splitSpace :: "string \<Rightarrow> string list" where
  "splitSpace s = splitSpaceFrom [] s"

text \<open>
  \<open>s.split(/\s+/)\<close>: every maximal run of white space is one separator; a leading or
  trailing run leaves an empty first or last piece, and \<open>"".split(/\s+/)\<close> is \<open>[""]\<close>.
\<close>

function splitWhitespaceFrom :: "string \<Rightarrow> string \<Rightarrow> string list" where
  "splitWhitespaceFrom cur [] = [cur]"
| "splitWhitespaceFrom cur (c # cs) =
     (if isWhitespace c then cur # splitWhitespaceFrom [] (dropWhile isWhitespace cs)
      else splitWhitespaceFrom (cur @ [c]) cs)"
  by pat_completeness auto
termination
proof (relation "measure (\<lambda>(cur, s). length s)")
  show "wf (measure (\<lambda>(cur, s). length s))" by simp
next
  fix cur :: string and c :: char and cs :: string
  have "length (dropWhile isWhitespace cs) \<le> length cs" by (rule length_dropWhile_le)
  then show "(([], dropWhile isWhitespace cs), (cur, c # cs)) \<in> measure (\<lambda>(cur, s). length s)"
    by simp
next
  fix cur :: string and c :: char and cs :: string
  show "((cur @ [c], cs), (cur, c # cs)) \<in> measure (\<lambda>(cur, s). length s)" by simp
qed

definition splitWhitespace :: "string \<Rightarrow> string list" where
  "splitWhitespace s = splitWhitespaceFrom [] s"

section \<open>The vocabulary: a JavaScript \<open>Map<string, number>\<close>\<close>

text \<open>
  A \<open>Map\<close> keeps its entries in insertion order; \<open>set\<close> on a present key replaces the
  value in place, on an absent key it appends. That is \<^const>\<open>AList.update\<close>.
\<close>

type_synonym vocab = "(string \<times> nat) list"

definition vocab_get :: "vocab \<Rightarrow> string \<Rightarrow> nat option" where
  "vocab_get v k = map_of v k"

definition vocab_has :: "vocab \<Rightarrow> string \<Rightarrow> bool" where
  "vocab_has v k = (map_of v k \<noteq> None)"

definition vocab_set :: "string \<Rightarrow> nat \<Rightarrow> vocab \<Rightarrow> vocab" where
  "vocab_set k i v = AList.update k i v"

definition vocab_size :: "vocab \<Rightarrow> nat" where
  "vocab_size v = length v"

section \<open>NeuralEngine.getSubwords\<close>

text \<open>
  The inner \<open>for\<close> loop, counting \<open>len\<close> down from its start value: the first candidate
  prefix that is a vocabulary key, or the one-character prefix. When the loop ends
  without a \<open>break\<close> the initial value \<open>remaining[0]\<close> stays.
\<close>

fun bestSubword :: "vocab \<Rightarrow> string \<Rightarrow> nat \<Rightarrow> string" where
  "bestSubword v remaining 0 = take 1 remaining"
| "bestSubword v remaining (Suc n) =
     (let candidate = take (Suc n) remaining
      in if vocab_has v candidate \<or> Suc n = 1 then candidate
         else bestSubword v remaining n)"

text \<open>The \<open>while (remaining.length > 0)\<close> loop, with the array \<open>subwords\<close> it pushes to.\<close>

function subwordLoop :: "vocab \<Rightarrow> string list \<Rightarrow> string \<Rightarrow> string list" where
  "subwordLoop v subwords remaining =
     (if 0 < length remaining
      then subwordLoop v
             (subwords @ [bestSubword v remaining (min (length remaining) 8)])
             (drop (length (bestSubword v remaining (min (length remaining) 8))) remaining)
      else subwords)"
  by pat_completeness auto
termination
proof (relation "measure (\<lambda>(v, subwords, remaining). length remaining)")
  show "wf (measure (\<lambda>(v, subwords, remaining). length remaining))" by simp
next
  fix v :: vocab and subwords :: "string list" and remaining :: string
  assume "0 < length remaining"
  moreover have "0 < length (bestSubword v remaining n)" if "remaining \<noteq> []" for n
    using that by (induction n) (auto simp: Let_def)
  ultimately have "0 < length (bestSubword v remaining (min (length remaining) 8))"
    by auto
  with \<open>0 < length remaining\<close>
  show "((v, subwords @ [bestSubword v remaining (min (length remaining) 8)],
          drop (length (bestSubword v remaining (min (length remaining) 8))) remaining),
         (v, subwords, remaining)) \<in> measure (\<lambda>(v, subwords, remaining). length remaining)"
    by simp
qed

declare subwordLoop.simps [simp del]

definition getSubwords :: "vocab \<Rightarrow> string \<Rightarrow> string list" where
  "getSubwords v word = (if length word \<le> 3 then [word] else subwordLoop v [] word)"


section \<open>NeuralEngine.calculateLoss and NeuralEngine.softmax\<close>

definition tokenAt :: "string list \<Rightarrow> nat \<Rightarrow> string" where
  "tokenAt tokens i = (if i < length tokens then tokens ! i else [])"

function lossLoop :: "string list \<Rightarrow> string list \<Rightarrow> nat \<Rightarrow> nat \<Rightarrow> real \<Rightarrow> real" where
  "lossLoop modelTokens targetTokens maxLen i loss =
     (if i < maxLen
      then lossLoop modelTokens targetTokens maxLen (i + 1)
             (if tokenAt modelTokens i \<noteq> tokenAt targetTokens i then loss + 1 else loss)
      else loss)"
  by pat_completeness auto
termination
  by (relation "measure (\<lambda>(m, t, maxLen, i, loss). maxLen - i)") simp_all

declare lossLoop.simps [simp del]

definition calculateLoss :: "string \<Rightarrow> string \<Rightarrow> real" where
  "calculateLoss modelOutput gptTarget =
     (let modelTokens = splitSpace modelOutput;
          targetTokens = splitSpace gptTarget;
          maxLen = max (length modelTokens) (length targetTokens)
      in lossLoop modelTokens targetTokens maxLen 0 0 / real maxLen)"

definition padTokens :: "nat \<Rightarrow> string list \<Rightarrow> string list" where
  "padTokens n tokens = tokens @ replicate (n - length tokens) []"

definition hammingLoss :: "string list \<Rightarrow> string list \<Rightarrow> real" where
  "hammingLoss a b =
     (let n = max (length a) (length b)
      in real (length (filter (\<lambda>(x, y). x \<noteq> y) (zip (padTokens n a) (padTokens n b))))
           / real n)"

definition whitespaceHammingLoss :: "string \<Rightarrow> string \<Rightarrow> real" where
  "whitespaceHammingLoss output target =
     hammingLoss (splitWhitespace output) (splitWhitespace target)"

fun softmax :: "real list \<Rightarrow> real list" where
  "softmax [] = []"
| "softmax (l # ls) =
     (let maxLogit = fold max ls l;
          expLogits = map (\<lambda>x. exp (x - maxLogit)) (l # ls);
          sumExp = foldl (+) 0 expLogits
      in map (\<lambda>e. e / sumExp) expLogits)"


section \<open>Rows of the durable tables (shared/schema.ts)\<close>

text \<open>
  Serial ids count the rows inserted so far; rows are never deleted, so a table is the list
  of its rows in insertion order. The \<open>defaultNow\<close> time stamps are not modelled: ordering
  by time stamp is insertion order. JSON bags keep the fields the code writes.
\<close>

text \<open>A JavaScript number that may have become \<open>NaN\<close>.\<close>

datatype jsnum = Fin real | NaN

record session_row =
  s_id :: nat
  s_name :: string
  s_objective :: string
  s_isActive :: bool
  s_totalReflections :: nat

record reflection =
  r_id :: nat
  r_sessionId :: nat
  r_cycle :: int
  r_type :: string
  r_content :: string
  r_metadata :: "(string \<times> int) list"

record memory_insight =
  i_id :: nat
  i_sessionId :: nat
  i_type :: string
  i_content :: string
  i_connections :: "int list"

record generated_content =
  g_id :: nat
  g_sessionId :: nat
  g_reflectionId :: nat
  g_content :: string
  g_isComplete :: bool
  g_qualityScore :: int
  g_coherenceScore :: int
  g_goalAlignment :: int

record model_weights_row =
  w_sessionId :: nat
  w_layerName :: string
  w_weights :: "real list list"
  w_biases :: "jsnum list"
  w_learningRate :: real

record token_row =
  t_sessionId :: nat
  t_token :: string
  t_tokenId :: nat
  t_frequency :: nat
  t_embedding :: "real list"

record training_batch =
  b_sessionId :: nat
  b_inputText :: string
  b_targetOutput :: string
  b_modelOutput :: string
  b_loss :: real
  b_tokens :: "nat list"

record learning_metrics =
  m_sessionId :: nat
  m_epoch :: nat
  m_totalLoss :: real
  m_averageLoss :: real
  m_perplexity :: real
  m_bleuScore :: real
  m_convergenceRate :: real
  m_vocabularySize :: nat

record db =
  sessions :: "session_row list"
  reflections :: "reflection list"
  memoryInsights :: "memory_insight list"
  generatedContent :: "generated_content list"
  modelWeights :: "model_weights_row list"
  tokenVocabulary :: "token_row list"
  trainingBatches :: "training_batch list"
  learningMetrics :: "learning_metrics list"

section \<open>The environment and the execution context\<close>

text \<open>
  Everything the code takes from outside is a field of the environment, indexed by a
  clock that every interaction with the outside advances:
  \<^item> \<open>dbFails t name\<close>: the storage call \<open>name\<close> issued at clock value \<open>t\<close> throws;
  \<^item> \<open>openaiReply t\<close>: the text of the chat completion requested at \<open>t\<close>, or \<open>None\<close> when
    the request throws (an absent \<open>content\<close> is the empty text);
  \<^item> \<open>mathRandom t i j\<close>: the value of the \<open>Math.random()\<close> call at position \<open>(i, j)\<close> of
    the step at \<open>t\<close>;
  \<^item> \<open>stopDuring c\<close>: a stop request is handled while cycle \<open>c\<close> is in flight (from the
    loop test that admits cycle \<open>c\<close> to the next loop test; \<open>c = 0\<close> is the time from the
    start of the loop to its first test);
  \<^item> \<open>storyTemplate\<close>: the fixed story text returned by generateTemplateContent.
\<close>

record env =
  dbFails :: "nat \<Rightarrow> string \<Rightarrow> bool"
  openaiReply :: "nat \<Rightarrow> string option"
  mathRandom :: "nat \<Rightarrow> nat \<Rightarrow> nat \<Rightarrow> real"
  stopDuring :: "int \<Rightarrow> bool"
  storyTemplate :: string

datatype error = SessionNotFound | PersistenceFailure | OpenAIFailure | TypeError

datatype message =
    ReflectionMessage reflection
  | MemoryInsightMessage memory_insight
  | GenerationMessage string bool nat int int
  | PerformanceUpdateMessage real real real real

text \<open>
  The context of a method call: the object \<open>this\<close>, the storage singleton, the messages
  broadcast so far, the log of storage calls (name, succeeded) and the clock.
\<close>

record 'e ctx =
  self :: 'e
  storage :: db
  sent :: "message list"
  dbLog :: "(string \<times> bool) list"
  clock :: nat

type_synonym ('e, 'a) prog = "'e ctx \<Rightarrow> (error + 'a) \<times> 'e ctx"

definition succeed :: "'a \<Rightarrow> ('e, 'a) prog" where
  "succeed a w = (Inr a, w)"

definition throwError :: "error \<Rightarrow> ('e, 'a) prog" where
  "throwError e w = (Inl e, w)"

text \<open>Sequencing: an exception skips the rest, and keeps the state reached.\<close>

definition andThen :: "('e, 'a) prog \<Rightarrow> ('a \<Rightarrow> ('e, 'b) prog) \<Rightarrow> ('e, 'b) prog" where
  "andThen m f w = (case m w of (Inl e, w') \<Rightarrow> (Inl e, w') | (Inr a, w') \<Rightarrow> f a w')"

text \<open>\<open>try { m } catch (error) { h(error) }\<close>.\<close>

definition tryCatch :: "('e, 'a) prog \<Rightarrow> (error \<Rightarrow> ('e, 'a) prog) \<Rightarrow> ('e, 'a) prog" where
  "tryCatch m h w = (case m w of (Inl e, w') \<Rightarrow> h e w' | (Inr a, w') \<Rightarrow> (Inr a, w'))"

definition modify :: "('e \<Rightarrow> 'e) \<Rightarrow> ('e, unit) prog" where
  "modify f w = (Inr (), w\<lparr>self := f (self w)\<rparr>)"

definition broadcast :: "message \<Rightarrow> ('e, unit) prog" where
  "broadcast msg w = (Inr (), w\<lparr>sent := sent w @ [msg]\<rparr>)"

text \<open>One step that draws random numbers: it sees the clock and advances it.\<close>

definition tick :: "('e, nat) prog" where
  "tick w = (Inr (clock w), w\<lparr>clock := Suc (clock w)\<rparr>)"

section \<open>The storage interface (DatabaseStorage)\<close>

text \<open>
  A storage call either throws, leaving the tables as they are, or runs its query. Both
  outcomes are logged under the name of the call.
\<close>

definition storageCall :: "env \<Rightarrow> string \<Rightarrow> (db \<Rightarrow> 'a \<times> db) \<Rightarrow> ('e, 'a) prog" where
  "storageCall env name query w =
     (if dbFails env (clock w) name
      then (Inl PersistenceFailure,
            w\<lparr>dbLog := dbLog w @ [(name, False)], clock := Suc (clock w)\<rparr>)
      else (case query (storage w) of
              (a, d) \<Rightarrow> (Inr a, w\<lparr>storage := d, dbLog := dbLog w @ [(name, True)],
                                  clock := Suc (clock w)\<rparr>)))"

definition getSession :: "env \<Rightarrow> nat \<Rightarrow> ('e, session_row option) prog" where
  "getSession env ident =
     storageCall env ''getSession'' (\<lambda>d. (find (\<lambda>s. s_id s = ident) (sessions d), d))"

definition createReflection ::
  "env \<Rightarrow> nat \<Rightarrow> int \<Rightarrow> string \<Rightarrow> string \<Rightarrow> (string \<times> int) list \<Rightarrow> ('e, reflection) prog" where
  "createReflection env sessionId cycle rtype content metadata =
     storageCall env ''createReflection'' (\<lambda>d.
       let row = \<lparr>r_id = Suc (length (reflections d)), r_sessionId = sessionId,
                  r_cycle = cycle, r_type = rtype, r_content = content,
                  r_metadata = metadata\<rparr>;
           rows = reflections d @ [row];
           reflectionCount = length (filter (\<lambda>r. r_sessionId r = sessionId) rows)
       in (row, d\<lparr>reflections := rows,
                  sessions := map (\<lambda>s. if s_id s = sessionId
                                then s\<lparr>s_totalReflections := reflectionCount\<rparr> else s)
                              (sessions d)\<rparr>))"

definition getReflectionsBySession :: "env \<Rightarrow> nat \<Rightarrow> ('e, reflection list) prog" where
  "getReflectionsBySession env sessionId =
     storageCall env ''getReflectionsBySession''
       (\<lambda>d. (filter (\<lambda>r. r_sessionId r = sessionId) (reflections d), d))"

definition createMemoryInsight ::
  "env \<Rightarrow> nat \<Rightarrow> string \<Rightarrow> string \<Rightarrow> int list \<Rightarrow> ('e, memory_insight) prog" where
  "createMemoryInsight env sessionId itype content connections =
     storageCall env ''createMemoryInsight'' (\<lambda>d.
       let row = \<lparr>i_id = Suc (length (memoryInsights d)), i_sessionId = sessionId,
                  i_type = itype, i_content = content, i_connections = connections\<rparr>
       in (row, d\<lparr>memoryInsights := memoryInsights d @ [row]\<rparr>))"

text \<open>Newest first, at most \<open>limit\<close> rows.\<close>

definition getRecentMemoryInsights :: "env \<Rightarrow> nat \<Rightarrow> ('e, memory_insight list) prog" where
  "getRecentMemoryInsights env limit =
     storageCall env ''getRecentMemoryInsights''
       (\<lambda>d. (take limit (rev (memoryInsights d)), d))"

definition createGeneratedContent ::
  "env \<Rightarrow> nat \<Rightarrow> nat \<Rightarrow> string \<Rightarrow> bool \<Rightarrow> int \<Rightarrow> int \<Rightarrow> int \<Rightarrow> ('e, generated_content) prog" where
  "createGeneratedContent env sessionId reflectionId content isComplete quality coherence
       alignment =
     storageCall env ''createGeneratedContent'' (\<lambda>d.
       let row = \<lparr>g_id = Suc (length (generatedContent d)), g_sessionId = sessionId,
                  g_reflectionId = reflectionId, g_content = content,
                  g_isComplete = isComplete, g_qualityScore = quality,
                  g_coherenceScore = coherence, g_goalAlignment = alignment\<rparr>
       in (row, d\<lparr>generatedContent := generatedContent d @ [row]\<rparr>))"

definition createModelWeights :: "env \<Rightarrow> model_weights_row \<Rightarrow> ('e, model_weights_row) prog" where
  "createModelWeights env row =
     storageCall env ''createModelWeights''
       (\<lambda>d. (row, d\<lparr>modelWeights := modelWeights d @ [row]\<rparr>))"

text \<open>Newest first.\<close>

definition getModelWeightsBySession :: "env \<Rightarrow> nat \<Rightarrow> ('e, model_weights_row list) prog" where
  "getModelWeightsBySession env sessionId =
     storageCall env ''getModelWeightsBySession''
       (\<lambda>d. (rev (filter (\<lambda>r. w_sessionId r = sessionId) (modelWeights d)), d))"

definition createTokenVocabulary :: "env \<Rightarrow> token_row \<Rightarrow> ('e, token_row) prog" where
  "createTokenVocabulary env row =
     storageCall env ''createTokenVocabulary''
       (\<lambda>d. (row, d\<lparr>tokenVocabulary := tokenVocabulary d @ [row]\<rparr>))"

text \<open>
  Ordered by descending frequency. Every row is written with frequency 1 and never
  updated, so the rows tie; they are returned in insertion order.
\<close>

definition getTokenVocabularyBySession :: "env \<Rightarrow> nat \<Rightarrow> ('e, token_row list) prog" where
  "getTokenVocabularyBySession env sessionId =
     storageCall env ''getTokenVocabularyBySession''
       (\<lambda>d. (filter (\<lambda>r. t_sessionId r = sessionId) (tokenVocabulary d), d))"

definition getTokenByValue :: "env \<Rightarrow> nat \<Rightarrow> string \<Rightarrow> ('e, token_row option) prog" where
  "getTokenByValue env sessionId token =
     storageCall env ''getTokenByValue''
       (\<lambda>d. (find (\<lambda>r. t_sessionId r = sessionId \<and> t_token r = token) (tokenVocabulary d), d))"

definition createTrainingBatch :: "env \<Rightarrow> training_batch \<Rightarrow> ('e, training_batch) prog" where
  "createTrainingBatch env row =
     storageCall env ''createTrainingBatch''
       (\<lambda>d. (row, d\<lparr>trainingBatches := trainingBatches d @ [row]\<rparr>))"

definition createLearningMetrics :: "env \<Rightarrow> learning_metrics \<Rightarrow> ('e, learning_metrics) prog" where
  "createLearningMetrics env row =
     storageCall env ''createLearningMetrics''
       (\<lambda>d. (row, d\<lparr>learningMetrics := learningMetrics d @ [row]\<rparr>))"


section \<open>NeuralEngine\<close>

record neural =
  n_sessionId :: nat
  vocabulary :: vocab
  tokenEmbeddings :: "(nat \<times> real list) list"
  weights :: "(string \<times> real list list) list"
  biases :: "(string \<times> jsnum list) list"
  learningRate :: real
  currentEpoch :: nat

definition getSelf :: "('e, 'e) prog" where
  "getSelf w = (Inr (self w), w)"

text \<open>\<open>Math.random()\<close> returns a number in [0, 1): the fractional part of what the
  environment supplies.\<close>

definition draw :: "env \<Rightarrow> nat \<Rightarrow> nat \<Rightarrow> nat \<Rightarrow> real" where
  "draw env t i j = frac (mathRandom env t i j)"

subsection \<open>Construction\<close>

definition randomMatrix :: "env \<Rightarrow> nat \<Rightarrow> nat \<Rightarrow> nat \<Rightarrow> real list list" where
  "randomMatrix env t rows cols =
     map (\<lambda>i. map (\<lambda>j. (draw env t i j - 0.5) * 0.1) [0..<cols]) [0..<rows]"

definition randomVector :: "env \<Rightarrow> nat \<Rightarrow> nat \<Rightarrow> real list" where
  "randomVector env t n = map (\<lambda>j. (draw env t 0 j - 0.5) * 0.1) [0..<n]"

text \<open>initializeWeights: the four layers with their dimensions, in the order of the code.\<close>

definition initialWeights :: "env \<Rightarrow> nat \<Rightarrow> (string \<times> real list list) list" where
  "initialWeights env t =
     [(''embedding'', randomMatrix env t 512 128),
      (''attention'', randomMatrix env (t + 2) 128 128),
      (''feedforward'', randomMatrix env (t + 4) 128 256),
      (''output'', randomMatrix env (t + 6) 256 50257)]"

definition initialBiases :: "env \<Rightarrow> nat \<Rightarrow> (string \<times> jsnum list) list" where
  "initialBiases env t =
     [(''embedding'', map Fin (randomVector env (t + 1) 128)),
      (''attention'', map Fin (randomVector env (t + 3) 128)),
      (''feedforward'', map Fin (randomVector env (t + 5) 256)),
      (''output'', map Fin (randomVector env (t + 7) 50257))]"

definition newNeuralEngine :: "env \<Rightarrow> nat \<Rightarrow> ('e, neural) prog" where
  "newNeuralEngine env sessionId w =
     (Inr \<lparr>n_sessionId = sessionId, vocabulary = [], tokenEmbeddings = [],
           weights = initialWeights env (clock w), biases = initialBiases env (clock w),
           learningRate = 0.001, currentEpoch = 0\<rparr>,
      w\<lparr>clock := clock w + 8\<rparr>)"

subsection \<open>tokenizeText\<close>

definition generateTokenEmbedding :: "env \<Rightarrow> nat \<Rightarrow> real list" where
  "generateTokenEmbedding env t = randomVector env t 128"

text \<open>\<open>!tokenId\<close>: true for \<open>undefined\<close> (no entry) and for the number 0.\<close>

definition isFalsy :: "nat option \<Rightarrow> bool" where
  "isFalsy tokenId = (tokenId = None \<or> tokenId = Some 0)"

text \<open>The body of the inner loop of tokenizeText, for one subword; it returns the token id
  that is pushed.\<close>

definition tokenizeSubword :: "env \<Rightarrow> string \<Rightarrow> (neural, nat) prog" where
  "tokenizeSubword env subword w =
     (let tokenId = vocab_get (vocabulary (self w)) subword
      in if isFalsy tokenId
         then (let fresh = vocab_size (vocabulary (self w));
                   w1 = w\<lparr>self := (self w)\<lparr>vocabulary :=
                           vocab_set subword fresh (vocabulary (self w))\<rparr>\<rparr>
               in andThen tick (\<lambda>t.
                  andThen (createTokenVocabulary env
                            \<lparr>t_sessionId = n_sessionId (self w1), t_token = subword,
                             t_tokenId = fresh, t_frequency = 1,
                             t_embedding = generateTokenEmbedding env t\<rparr>)
                    (\<lambda>row. succeed fresh)) w1)
         else andThen (getTokenByValue env (n_sessionId (self w)) subword)
                (\<lambda>existing. succeed (the tokenId)) w)"

fun tokenizeSubwords :: "env \<Rightarrow> string list \<Rightarrow> nat list \<Rightarrow> (neural, nat list) prog" where
  "tokenizeSubwords env [] tokens w = (Inr tokens, w)"
| "tokenizeSubwords env (subword # rest) tokens w =
     (case tokenizeSubword env subword w of
        (Inl e, w') \<Rightarrow> (Inl e, w')
      | (Inr tokenId, w') \<Rightarrow> tokenizeSubwords env rest (tokens @ [tokenId]) w')"

fun tokenizeWords :: "env \<Rightarrow> string list \<Rightarrow> nat list \<Rightarrow> (neural, nat list) prog" where
  "tokenizeWords env [] tokens w = (Inr tokens, w)"
| "tokenizeWords env (word # rest) tokens w =
     (case tokenizeSubwords env (getSubwords (vocabulary (self w)) word) tokens w of
        (Inl e, w') \<Rightarrow> (Inl e, w')
      | (Inr tokens', w') \<Rightarrow> tokenizeWords env rest tokens' w')"

definition tokenizeText :: "env \<Rightarrow> string \<Rightarrow> (neural, nat list) prog" where
  "tokenizeText env txt = tokenizeWords env (splitWhitespace (toLowerCase txt)) []"

subsection \<open>forwardPass\<close>

text \<open>\<open>row.reduce((sum, weight, i) => sum + weight * (vector[i] || 0), 0)\<close> for every row.\<close>

definition matrixVectorMultiply :: "real list list \<Rightarrow> real list \<Rightarrow> real list" where
  "matrixVectorMultiply matrix vector =
     map (\<lambda>row. foldl (\<lambda>sum (i, weight).
                   sum + weight * (if i < length vector then vector ! i else 0))
              0 (enumerate 0 row))
       matrix"

text \<open>The walk along the cumulative distribution; \<open>None\<close> when the draw exceeds every
  cumulative sum.\<close>

fun sampleWalk :: "real list \<Rightarrow> real \<Rightarrow> real \<Rightarrow> nat \<Rightarrow> nat option" where
  "sampleWalk [] r cumulative i = None"
| "sampleWalk (p # ps) r cumulative i =
     (if r < cumulative + p then Some i else sampleWalk ps r (cumulative + p) (Suc i))"

definition sampleFromLogits :: "real list \<Rightarrow> real \<Rightarrow> int" where
  "sampleFromLogits logits r =
     (case sampleWalk (softmax logits) r 0 0 of
        Some i \<Rightarrow> int i
      | None \<Rightarrow> int (length logits) - 1)"

definition joinSpace :: "string list \<Rightarrow> string" where
  "joinSpace ws = (case ws of [] \<Rightarrow> [] | x # xs \<Rightarrow> x @ concat (map (\<lambda>y. CHR '' '' # y) xs))"

text \<open>The first vocabulary entry, in insertion order, with the given id; a token without
  one is dropped.\<close>

definition wordOfToken :: "vocab \<Rightarrow> int \<Rightarrow> string option" where
  "wordOfToken v token = map_option fst (find (\<lambda>entry. int (snd entry) = token) v)"

definition detokenize :: "vocab \<Rightarrow> int list \<Rightarrow> string" where
  "detokenize v tokens = joinSpace (List.map_filter (wordOfToken v) tokens)"

text \<open>applyAttention, applyFeedForward and the projection of generateOutput: the layer's
  matrix applied to every vector. A missing layer is a TypeError at the first vector.\<close>

definition applyLayer :: "neural \<Rightarrow> string \<Rightarrow> real list list \<Rightarrow> error + real list list" where
  "applyLayer ne layer vectors =
     (case map_of (weights ne) layer of
        None \<Rightarrow> (if vectors = [] then Inr [] else Inl TypeError)
      | Some matrix \<Rightarrow> Inr (map (matrixVectorMultiply matrix) vectors))"

definition fromResult :: "error + 'a \<Rightarrow> ('e, 'a) prog" where
  "fromResult r w = (r, w)"

definition forwardPass :: "env \<Rightarrow> nat list \<Rightarrow> (neural, string) prog" where
  "forwardPass env tokens =
     andThen getSelf (\<lambda>ne.
     andThen tick (\<lambda>t.
     let embeddings = map (\<lambda>(k, token).
                        case map_of (tokenEmbeddings ne) token of
                          Some e \<Rightarrow> e
                        | None \<Rightarrow> map (\<lambda>j. (draw env t k j - 0.5) * 0.1) [0..<128])
                      (enumerate 0 tokens)
     in andThen (fromResult (applyLayer ne ''attention'' embeddings)) (\<lambda>attentionOutput.
        andThen (fromResult (applyLayer ne ''feedforward'' attentionOutput)) (\<lambda>ffOutput.
        andThen (fromResult (applyLayer ne ''output'' ffOutput)) (\<lambda>logits.
        andThen tick (\<lambda>t'.
        succeed (detokenize (vocabulary ne)
                  (map (\<lambda>(k, logit). sampleFromLogits logit (draw env t' k 0))
                     (enumerate 0 logits)))))))))"

subsection \<open>updateWeights\<close>

type_synonym gradients = "string \<Rightarrow> real list list option"

definition noise :: "env \<Rightarrow> nat \<Rightarrow> real \<Rightarrow> nat \<Rightarrow> nat \<Rightarrow> real" where
  "noise env t loss i j = (draw env t i j - 0.5) * loss * 0.01"

text \<open>
  calculateGradients, over the entries of \<open>this.weights\<close>: under the layer's name a matrix
  of the shape of its weights, and under \<open><name>_bias\<close> an array that holds \<^emph>\<open>one row\<close>,
  the row of the bias gradients.
\<close>

fun calculateGradientsFrom ::
  "env \<Rightarrow> real \<Rightarrow> (string \<times> jsnum list) list \<Rightarrow> nat \<Rightarrow> (string \<times> real list list) list
     \<Rightarrow> gradients \<Rightarrow> error + gradients" where
  "calculateGradientsFrom env loss bs t [] g = Inr g"
| "calculateGradientsFrom env loss bs t ((layerName, ws) # rest) g =
     (let g1 = g(layerName \<mapsto>
                 map (\<lambda>(i, row). map (\<lambda>(j, x). noise env t loss i j) (enumerate 0 row))
                   (enumerate 0 ws))
      in case map_of bs layerName of
           None \<Rightarrow> Inl TypeError
         | Some b \<Rightarrow>
             calculateGradientsFrom env loss bs (t + 2) rest
               (g1(layerName @ ''_bias'' \<mapsto>
                     [map (\<lambda>(j, x). noise env (Suc t) loss 0 j) (enumerate 0 b)])))"

definition calculateGradients :: "env \<Rightarrow> nat \<Rightarrow> real \<Rightarrow> neural \<Rightarrow> error + gradients" where
  "calculateGradients env t loss ne =
     calculateGradientsFrom env loss (biases ne) t (weights ne) Map.empty"

text \<open>\<open>layerGradients[i]?.[j] || 0\<close>.\<close>

definition weightGradient :: "real list list \<Rightarrow> nat \<Rightarrow> nat \<Rightarrow> real" where
  "weightGradient layerGradients i j =
     (if i < length layerGradients \<and> j < length (layerGradients ! i)
      then layerGradients ! i ! j else 0)"

text \<open>
  The number an array becomes when it is an operand of \<open>*\<close>: the array is joined with
  commas and the text is read as a number, so the empty array is 0, a one-element array
  is its element, and a longer array is \<open>NaN\<close>.
\<close>

definition arrayToNumber :: "real list \<Rightarrow> jsnum" where
  "arrayToNumber a = (case a of [] \<Rightarrow> Fin 0 | [x] \<Rightarrow> Fin x | _ \<Rightarrow> NaN)"

text \<open>\<open>this.learningRate * (biasGradients[i] || 0)\<close>: an entry of \<open>biasGradients\<close> is an
  array (every array is truthy); a missing entry gives 0.\<close>

definition biasStep :: "real \<Rightarrow> real list list \<Rightarrow> nat \<Rightarrow> jsnum" where
  "biasStep rate biasGradients i =
     (if i < length biasGradients
      then (case arrayToNumber (biasGradients ! i) of Fin x \<Rightarrow> Fin (rate * x) | NaN \<Rightarrow> NaN)
      else Fin (rate * 0))"

definition jsMinus :: "jsnum \<Rightarrow> jsnum \<Rightarrow> jsnum" where
  "jsMinus a b = (case (a, b) of (Fin x, Fin y) \<Rightarrow> Fin (x - y) | _ \<Rightarrow> NaN)"

definition updateLayerWeights :: "real \<Rightarrow> real list list \<Rightarrow> real list list \<Rightarrow> real list list" where
  "updateLayerWeights rate layerGradients layerWeights =
     map (\<lambda>(i, row). map (\<lambda>(j, x). x - rate * weightGradient layerGradients i j)
                       (enumerate 0 row))
       (enumerate 0 layerWeights)"

definition updateLayerBiases :: "real \<Rightarrow> real list list \<Rightarrow> jsnum list \<Rightarrow> jsnum list" where
  "updateLayerBiases rate biasGradients bs =
     map (\<lambda>(i, b). jsMinus b (biasStep rate biasGradients i)) (enumerate 0 bs)"

text \<open>The loop of updateWeights over the layer names; \<open>gradients[key] || []\<close> is the empty
  array for a missing key.\<close>

fun updateLayers :: "gradients \<Rightarrow> string list \<Rightarrow> neural \<Rightarrow> error + neural" where
  "updateLayers g [] ne = Inr ne"
| "updateLayers g (layerName # rest) ne =
     (case map_of (weights ne) layerName of
        None \<Rightarrow> updateLayers g rest ne
      | Some layerWeights \<Rightarrow>
          (let layerGradients = (case g layerName of Some m \<Rightarrow> m | None \<Rightarrow> []);
               ne1 = ne\<lparr>weights := AList.update layerName
                          (updateLayerWeights (learningRate ne) layerGradients layerWeights)
                          (weights ne)\<rparr>
           in case map_of (biases ne1) layerName of
                None \<Rightarrow> Inl TypeError
              | Some bs \<Rightarrow>
                  (let biasGradients =
                         (case g (layerName @ ''_bias'') of Some m \<Rightarrow> m | None \<Rightarrow> [])
                   in updateLayers g rest
                        (ne1\<lparr>biases := AList.update layerName
                                (updateLayerBiases (learningRate ne1) biasGradients bs)
                                (biases ne1)\<rparr>))))"

text \<open>saveWeightsToDatabase: one snapshot row per layer. A layer without a bias vector
  is stored with an empty one.\<close>

fun saveLayers :: "env \<Rightarrow> string list \<Rightarrow> (neural, unit) prog" where
  "saveLayers env [] w = (Inr (), w)"
| "saveLayers env (layerName # rest) w =
     (case createModelWeights env
             \<lparr>w_sessionId = n_sessionId (self w), w_layerName = layerName,
              w_weights = (case map_of (weights (self w)) layerName of
                             Some m \<Rightarrow> m | None \<Rightarrow> []),
              w_biases = (case map_of (biases (self w)) layerName of
                            Some b \<Rightarrow> b | None \<Rightarrow> []),
              w_learningRate = learningRate (self w)\<rparr> w of
        (Inl e, w') \<Rightarrow> (Inl e, w')
      | (Inr row, w') \<Rightarrow> saveLayers env rest w')"

definition saveWeightsToDatabase :: "env \<Rightarrow> (neural, unit) prog" where
  "saveWeightsToDatabase env w = saveLayers env (map fst (weights (self w))) w"

definition updateWeights :: "env \<Rightarrow> real \<Rightarrow> string \<Rightarrow> string \<Rightarrow> (neural, unit) prog" where
  "updateWeights env loss modelOutput gptTarget =
     andThen getSelf (\<lambda>ne.
     andThen tick (\<lambda>t.
     andThen (\<lambda>w. (Inr (), w\<lparr>clock := clock w + 2 * length (weights ne)\<rparr>)) (\<lambda>u.
     andThen (fromResult (calculateGradients env t loss ne)) (\<lambda>g.
     andThen (fromResult (updateLayers g (map fst (weights ne)) ne)) (\<lambda>ne'.
     andThen (modify (\<lambda>old. ne')) (\<lambda>u.
     saveWeightsToDatabase env))))))"

subsection \<open>trainStep\<close>

definition calculateBleuScore :: "string \<Rightarrow> string \<Rightarrow> real" where
  "calculateBleuScore modelOutput target =
     (let modelWords = splitSpace modelOutput;
          targetWords = splitSpace target;
          matches = length (filter (\<lambda>word. word \<in> set targetWords) modelWords)
      in if 0 < length modelWords then real matches / real (length modelWords) else 0)"

definition calculateConvergenceRate :: "real \<Rightarrow> real" where
  "calculateConvergenceRate currentLoss = max 0 (1 - currentLoss)"

definition openaiChat :: "env \<Rightarrow> string \<Rightarrow> ('e, string) prog" where
  "openaiChat env prompt =
     andThen tick (\<lambda>t. case openaiReply env t of
                          None \<Rightarrow> throwError OpenAIFailure
                        | Some content \<Rightarrow> succeed content)"

text \<open>The whole body is inside \<open>try\<close>; the handler logs the error and returns.\<close>

definition trainStep :: "env \<Rightarrow> string \<Rightarrow> (neural, unit) prog" where
  "trainStep env inputText =
     tryCatch
       (andThen (openaiChat env inputText) (\<lambda>gptTarget.
        andThen (tokenizeText env inputText) (\<lambda>tokens.
        andThen (forwardPass env tokens) (\<lambda>modelOutput.
        let loss = calculateLoss modelOutput gptTarget
        in andThen (updateWeights env loss modelOutput gptTarget) (\<lambda>u.
           andThen getSelf (\<lambda>ne.
           andThen (createTrainingBatch env
                     \<lparr>b_sessionId = n_sessionId ne, b_inputText = inputText,
                      b_targetOutput = gptTarget, b_modelOutput = modelOutput,
                      b_loss = loss, b_tokens = tokens\<rparr>) (\<lambda>batch.
           andThen (modify (\<lambda>e. e\<lparr>currentEpoch := Suc (currentEpoch e)\<rparr>)) (\<lambda>u.
           andThen (createLearningMetrics env
                     \<lparr>m_sessionId = n_sessionId ne, m_epoch = currentEpoch ne,
                      m_totalLoss = loss, m_averageLoss = loss, m_perplexity = exp loss,
                      m_bleuScore = calculateBleuScore modelOutput gptTarget,
                      m_convergenceRate = calculateConvergenceRate loss,
                      m_vocabularySize = vocab_size (vocabulary ne)\<rparr>) (\<lambda>metrics.
           broadcast (PerformanceUpdateMessage
                       (max 0 (100 - loss * 100))
                       (min 100 ((1 - loss) * 100))
                       2.5
                       (min 100 (real (vocab_size (vocabulary ne)) / 1000 * 100))))))))))))
       (\<lambda>e. succeed ())"

subsection \<open>loadWeights\<close>

definition restoreToken :: "neural \<Rightarrow> token_row \<Rightarrow> neural" where
  "restoreToken ne token =
     ne\<lparr>vocabulary := vocab_set (t_token token) (t_tokenId token) (vocabulary ne),
        tokenEmbeddings := AList.update (t_tokenId token) (t_embedding token)
                             (tokenEmbeddings ne)\<rparr>"

definition restoreWeights :: "neural \<Rightarrow> model_weights_row \<Rightarrow> neural" where
  "restoreWeights ne weightRecord =
     (let ne1 = ne\<lparr>weights := AList.update (w_layerName weightRecord)
                               (w_weights weightRecord) (weights ne),
                   biases := AList.update (w_layerName weightRecord)
                               (w_biases weightRecord) (biases ne)\<rparr>
      in if w_learningRate weightRecord \<noteq> 0
         then ne1\<lparr>learningRate := w_learningRate weightRecord\<rparr> else ne1)"

definition loadWeights :: "env \<Rightarrow> (neural, unit) prog" where
  "loadWeights env =
     andThen getSelf (\<lambda>ne.
     andThen (getModelWeightsBySession env (n_sessionId ne)) (\<lambda>savedWeights.
     andThen (getTokenVocabularyBySession env (n_sessionId ne)) (\<lambda>savedTokens.
     modify (\<lambda>e. foldl restoreWeights (foldl restoreToken e savedTokens) savedWeights))))"


section \<open>ReflectionEngine\<close>

record reflection_engine =
  session :: "session_row option"
  currentCycle :: int
  isGenerating :: bool
  neuralEngine :: "neural option"

text \<open>
  A call of a method of \<open>this.neuralEngine\<close>: the method runs on the engine object with
  the same storage, broadcast channel and clock, and its changes to the engine stay in
  the object. A call on \<open>null\<close> is a TypeError.
\<close>

definition callEngine :: "(neural, 'a) prog \<Rightarrow> (reflection_engine, 'a) prog" where
  "callEngine m w =
     (case neuralEngine (self w) of
        None \<Rightarrow> (Inl TypeError, w)
      | Some ne \<Rightarrow>
          (case m \<lparr>self = ne, storage = storage w, sent = sent w, dbLog = dbLog w,
                   clock = clock w\<rparr> of
             (r, c) \<Rightarrow> (r, \<lparr>self = (self w)\<lparr>neuralEngine := Some (self c)\<rparr>,
                           storage = storage c, sent = sent c, dbLog = dbLog c,
                           clock = clock c\<rparr>)))"

definition quote :: "string \<Rightarrow> string" where
  "quote s = [CHR 0x22] @ s @ [CHR 0x22]"

definition analysisTemplates :: "string \<Rightarrow> string list" where
  "analysisTemplates userInput =
     [''Analyzing user input '' @ quote userInput @ '' - this appears to be a creative writing request that requires narrative structure and emotional depth.'',
      ''Breaking down the request: '' @ quote userInput @ '' - identifying key themes of time, mystery, and human connection.'',
      ''Examining the creative elements in '' @ quote userInput @ '' - considering plot development, character motivation, and atmospheric details.'',
      ''Processing the user's intent: '' @ quote userInput @ '' - balancing genre conventions with original storytelling approaches.'']"

definition memoryTemplates :: "string list" where
  "memoryTemplates =
     [''Recalling patterns from previous generations - narrative structures that resonated with readers and created emotional impact.'',
      ''Drawing from stored experience - character development techniques that build authentic personality and motivation.'',
      ''Accessing learned approaches - dialogue patterns that feel natural while advancing plot and revealing character.'',
      ''Retrieving successful strategies - pacing methods that maintain reader engagement throughout the story.'']"

definition strategyTemplates :: "string list" where
  "strategyTemplates =
     [''Strategy: Begin with an intriguing hook that establishes the time travel mechanism while introducing the romantic tension between characters.'',
      ''Refinement: Layer mystery elements throughout the narrative, using temporal paradoxes to create suspense while developing character relationships.'',
      ''Enhancement: Weave together the three genres by making the mystery central to the romance, with time travel as both obstacle and solution.'',
      ''Optimization: Focus on emotional resonance - ensure each time jump reveals character depth and advances both romantic and mystery plots.'']"

definition noiseElements :: "string list" where
  "noiseElements =
     [''Unexpected temporal paradox: What if changing the past creates a memory loop where the protagonist remembers multiple timelines simultaneously?'',
      ''Genre twist: The mystery isn't about solving a crime, but preventing one that hasn't happened yet through careful time manipulation.'',
      ''Character surprise: The love interest is actually from a different time period, adding layers to both romance and mystery elements.'',
      ''Narrative innovation: Tell parts of the story backwards, with each time jump revealing earlier events in the mystery.'']"

definition insightTypes :: "string list" where
  "insightTypes = [''pattern_recognition'', ''learning'', ''optimization'', ''adaptation'',
     ''correction'', ''enhancement'']"

definition insightTexts :: "string list" where
  "insightTexts =
     [''Identified preference for narrative structure in user requests'',
      ''Improved response coherence through iterative feedback'',
      ''Enhanced contextual understanding through reflection cycles'',
      ''Adjusted tone and style based on user interaction patterns'',
      ''Refined accuracy through self-correction mechanisms'',
      ''Strengthened creative elements through noise injection'']"

text \<open>\<open>templates[cycle % templates.length]\<close>, for the cycle numbers 1, 2, ... of the loop.\<close>

definition templateAt :: "string list \<Rightarrow> int \<Rightarrow> string" where
  "templateAt templates cycle = templates ! nat (cycle mod int (length templates))"

text \<open>\<open>Math.floor(Math.random() * n)\<close>.\<close>

definition randomIndex :: "env \<Rightarrow> nat \<Rightarrow> nat \<Rightarrow> nat" where
  "randomIndex env t n = nat \<lfloor>draw env t 0 0 * real n\<rfloor>"

text \<open>\<open>Math.floor(base + Math.random() * width)\<close>.\<close>

definition randomScore :: "env \<Rightarrow> nat \<Rightarrow> nat \<Rightarrow> real \<Rightarrow> real \<Rightarrow> int" where
  "randomScore env t j base width = \<lfloor>base + draw env t 0 j * width\<rfloor>"

definition createAnalysisReflection ::
  "env \<Rightarrow> nat \<Rightarrow> int \<Rightarrow> string \<Rightarrow> reflection list \<Rightarrow> (reflection_engine, reflection) prog" where
  "createAnalysisReflection env sessionId cycle userInput previousReflections =
     createReflection env sessionId cycle ''analysis''
       (templateAt (analysisTemplates userInput) cycle)
       [(''previousReflections'', int (length previousReflections))]"

definition createMemoryReflection ::
  "env \<Rightarrow> nat \<Rightarrow> int \<Rightarrow> memory_insight list \<Rightarrow> (reflection_engine, reflection) prog" where
  "createMemoryReflection env sessionId cycle insights =
     createReflection env sessionId cycle ''memory_recall''
       (templateAt memoryTemplates cycle)
       [(''insights_count'', int (length insights))]"

definition createStrategyReflection ::
  "env \<Rightarrow> nat \<Rightarrow> int \<Rightarrow> string \<Rightarrow> reflection list \<Rightarrow> (reflection_engine, reflection) prog" where
  "createStrategyReflection env sessionId cycle userInput previousReflections =
     createReflection env sessionId cycle
       (if cycle = 1 then ''strategy'' else ''refinement'')
       (templateAt strategyTemplates cycle)
       [(''refinement_level'', cycle)]"

definition createNoiseReflection ::
  "env \<Rightarrow> nat \<Rightarrow> int \<Rightarrow> int \<Rightarrow> (reflection_engine, reflection) prog" where
  "createNoiseReflection env sessionId cycle noiseLevel =
     andThen tick (\<lambda>t.
     createReflection env sessionId cycle ''noise_injection''
       (noiseElements ! randomIndex env t (length noiseElements))
       [(''noise_level'', noiseLevel)])"

definition generateMemoryInsight :: "env \<Rightarrow> nat \<Rightarrow> (reflection_engine, unit) prog" where
  "generateMemoryInsight env sessionId =
     andThen tick (\<lambda>t.
     andThen getSelf (\<lambda>this.
     andThen (createMemoryInsight env sessionId
               (insightTypes ! randomIndex env t (length insightTypes))
               (insightTexts ! randomIndex env t (length insightTypes))
               [currentCycle this]) (\<lambda>insight.
     broadcast (MemoryInsightMessage insight))))"

definition updatePerformanceMetrics :: "env \<Rightarrow> nat \<Rightarrow> (reflection_engine, unit) prog" where
  "updatePerformanceMetrics env sessionId =
     andThen tick (\<lambda>t.
     broadcast (PerformanceUpdateMessage
                 (real_of_int (randomScore env t 0 85 15))
                 (real_of_int (randomScore env t 1 8 12))
                 (1.5 + draw env t 0 2 * 2)
                 (real_of_int (randomScore env t 3 60 25))))"

definition performReflectionCycle ::
  "env \<Rightarrow> nat \<Rightarrow> string \<Rightarrow> int \<Rightarrow> int \<Rightarrow> (reflection_engine, unit) prog" where
  "performReflectionCycle env sessionId userInput cycle noiseLevel =
     andThen (getReflectionsBySession env sessionId) (\<lambda>previousReflections.
     andThen (getRecentMemoryInsights env 10) (\<lambda>insights.
     andThen (createAnalysisReflection env sessionId cycle userInput previousReflections)
       (\<lambda>analysisReflection.
     andThen (broadcast (ReflectionMessage analysisReflection)) (\<lambda>u.
     andThen (createMemoryReflection env sessionId cycle insights) (\<lambda>memoryReflection.
     andThen (broadcast (ReflectionMessage memoryReflection)) (\<lambda>u.
     andThen (createStrategyReflection env sessionId cycle userInput previousReflections)
       (\<lambda>strategyReflection.
     andThen (broadcast (ReflectionMessage strategyReflection)) (\<lambda>u.
     andThen (if 0 < noiseLevel
              then andThen (createNoiseReflection env sessionId cycle noiseLevel)
                     (\<lambda>noiseReflection. broadcast (ReflectionMessage noiseReflection))
              else succeed ()) (\<lambda>u.
     andThen (generateMemoryInsight env sessionId) (\<lambda>u.
     updatePerformanceMetrics env sessionId))))))))))"

text \<open>generateTemplateContent returns a fixed story, whatever its arguments.\<close>

definition generateTemplateContent :: "env \<Rightarrow> string \<Rightarrow> reflection list \<Rightarrow> string" where
  "generateTemplateContent env userInput rs = storyTemplate env"

text \<open>The streaming loop of generateFinalContent: a growing prefix is broadcast per word.\<close>

fun streamWords :: "env \<Rightarrow> string list \<Rightarrow> string \<Rightarrow> nat \<Rightarrow> (reflection_engine, nat) prog" where
  "streamWords env [] currentContent wordCount w = (Inr wordCount, w)"
| "streamWords env (word # rest) currentContent wordCount w =
     (let content = currentContent @ (if 0 < wordCount then '' '' else '''') @ word;
          t = clock w
      in streamWords env rest content (Suc wordCount)
           (w\<lparr>sent := sent w @ [GenerationMessage content False (Suc wordCount)
                                  (randomScore env t 0 85 15) (randomScore env t 1 80 20)],
              clock := Suc t\<rparr>))"

text \<open>The text to stream: the engine's, or the template when there is no engine or the
  engine throws.\<close>

definition engineOrTemplateContent ::
  "env \<Rightarrow> string \<Rightarrow> reflection list \<Rightarrow> (reflection_engine, string) prog" where
  "engineOrTemplateContent env userInput rs =
     andThen getSelf (\<lambda>this.
     if neuralEngine this \<noteq> None
     then tryCatch
            (andThen (callEngine (tokenizeText env userInput)) (\<lambda>tokens.
             callEngine (forwardPass env tokens)))
            (\<lambda>e. succeed (generateTemplateContent env userInput rs))
     else succeed (generateTemplateContent env userInput rs))"

definition generateFinalContent :: "env \<Rightarrow> nat \<Rightarrow> string \<Rightarrow> (reflection_engine, unit) prog" where
  "generateFinalContent env sessionId userInput =
     andThen (getReflectionsBySession env sessionId) (\<lambda>rs.
     andThen (getSession env sessionId) (\<lambda>sessionRow.
     andThen (engineOrTemplateContent env userInput rs) (\<lambda>fullContent.
     andThen (streamWords env (splitSpace fullContent) [] 0) (\<lambda>wordCount.
     andThen tick (\<lambda>t.
     andThen (broadcast (GenerationMessage fullContent True wordCount
                          (randomScore env t 0 90 10) (randomScore env t 1 85 15))) (\<lambda>u.
     andThen tick (\<lambda>t'.
     andThen (createGeneratedContent env sessionId
               (if rs = [] then 0 else r_id (last rs))
               fullContent True
               (randomScore env t' 0 90 10) (randomScore env t' 1 85 15)
               (randomScore env t' 2 80 20)) (\<lambda>row.
     succeed ()))))))))"

definition stop :: "(reflection_engine, unit) prog" where
  "stop = modify (\<lambda>this. this\<lparr>isGenerating := False\<rparr>)"

text \<open>A stop request that arrives while phase \<open>c\<close> of the loop is in flight is handled at
  the first point of the phase where the loop waits.\<close>

definition stopRequests :: "env \<Rightarrow> int \<Rightarrow> (reflection_engine, unit) prog" where
  "stopRequests env c = (if stopDuring env c then stop else succeed ())"

text \<open>
  The body of the \<open>for\<close> loop of startReflectionLoop: the cycle, then the training step
  when there is an engine. The one-second pause between cycles is not modelled.
\<close>

definition cycleBody ::
  "env \<Rightarrow> nat \<Rightarrow> string \<Rightarrow> int \<Rightarrow> int \<Rightarrow> (reflection_engine, unit) prog" where
  "cycleBody env sessionId userInput cycle noiseLevel =
     andThen (modify (\<lambda>this. this\<lparr>currentCycle := cycle\<rparr>)) (\<lambda>u.
     andThen (stopRequests env cycle) (\<lambda>u.
     andThen (performReflectionCycle env sessionId userInput cycle noiseLevel) (\<lambda>u.
     andThen getSelf (\<lambda>this.
     if neuralEngine this \<noteq> None then callEngine (trainStep env userInput)
     else succeed ()))))"

function cycleLoop ::
  "env \<Rightarrow> nat \<Rightarrow> string \<Rightarrow> int \<Rightarrow> int \<Rightarrow> int \<Rightarrow> (reflection_engine, unit) prog" where
  "cycleLoop env sessionId userInput reflectionCycles noiseLevel cycle w =
     (if cycle \<le> reflectionCycles \<and> isGenerating (self w)
      then (case cycleBody env sessionId userInput cycle noiseLevel w of
              (Inl e, w') \<Rightarrow> (Inl e, w')
            | (Inr u, w') \<Rightarrow>
                cycleLoop env sessionId userInput reflectionCycles noiseLevel (cycle + 1) w')
      else (Inr (), w))"
  by pat_completeness auto
termination
  by (relation "measure (\<lambda>(env, sessionId, userInput, reflectionCycles, noiseLevel, cycle, w).
        nat (reflectionCycles + 1 - cycle))") simp_all

declare cycleLoop.simps [simp del]

text \<open>The part of startReflectionLoop before its \<open>try\<close> block.\<close>

definition beginLoop :: "env \<Rightarrow> nat \<Rightarrow> (reflection_engine, unit) prog" where
  "beginLoop env sessionId =
     andThen (getSession env sessionId) (\<lambda>found.
     andThen (modify (\<lambda>this. this\<lparr>session := found\<rparr>)) (\<lambda>u.
     if found = None then throwError SessionNotFound
     else andThen (newNeuralEngine env sessionId) (\<lambda>ne.
          andThen (modify (\<lambda>this. this\<lparr>neuralEngine := Some ne\<rparr>)) (\<lambda>u.
          andThen (callEngine (loadWeights env)) (\<lambda>u.
          modify (\<lambda>this. this\<lparr>currentCycle := 0, isGenerating := True\<rparr>))))))"

text \<open>The \<open>try\<close> block; its handler logs the error and throws it again.\<close>

definition startReflectionLoop ::
  "env \<Rightarrow> nat \<Rightarrow> string \<Rightarrow> int \<Rightarrow> int \<Rightarrow> (reflection_engine, unit) prog" where
  "startReflectionLoop env sessionId userInput reflectionCycles noiseLevel =
     andThen (beginLoop env sessionId) (\<lambda>u.
     tryCatch
       (andThen (createReflection env sessionId 0 ''user_input'' userInput
                  [(''noiseLevel'', noiseLevel), (''reflectionCycles'', reflectionCycles)])
          (\<lambda>row.
        andThen (stopRequests env 0) (\<lambda>u.
        andThen (cycleLoop env sessionId userInput reflectionCycles noiseLevel 1) (\<lambda>u.
        generateFinalContent env sessionId userInput))))
       (\<lambda>e. throwError e))"


section \<open>Concrete inputs\<close>

text \<open>An environment in which no storage call fails, the chat completion answers,
  every random draw is 0 and nobody asks to stop.\<close>

definition quietEnv :: env where
  "quietEnv = \<lparr>dbFails = (\<lambda>t name. False), openaiReply = (\<lambda>t. Some ''ok''),
     mathRandom = (\<lambda>t i j. 0), stopDuring = (\<lambda>c. False), storyTemplate = ''story''\<rparr>"

definition emptyDb :: db where
  "emptyDb = \<lparr>sessions = [], reflections = [], memoryInsights = [], generatedContent = [],
     modelWeights = [], tokenVocabulary = [], trainingBatches = [], learningMetrics = []\<rparr>"

text \<open>A NeuralEngine as its constructor leaves it, for session 1.\<close>

definition freshEngine :: neural where
  "freshEngine = \<lparr>n_sessionId = 1, vocabulary = [], tokenEmbeddings = [],
     weights = initialWeights quietEnv 0, biases = initialBiases quietEnv 0,
     learningRate = 0.001, currentEpoch = 0\<rparr>"

definition freshEngineCtx :: "neural ctx" where
  "freshEngineCtx = \<lparr>self = freshEngine, storage = emptyDb, sent = [], dbLog = [], clock = 8\<rparr>"

text \<open>The same engine once the vocabulary holds \<open>hi\<close> and \<open>yo\<close>, as after tokenizing
  \<open>hi yo\<close>.\<close>

definition knownEngineCtx :: "neural ctx" where
  "knownEngineCtx =
     freshEngineCtx\<lparr>self := freshEngine\<lparr>vocabulary := [(''hi'', 0), (''yo'', 1)]\<rparr>\<rparr>"

text \<open>A store holding session 1, and a ReflectionEngine as its constructor leaves it.\<close>

definition demoSession :: session_row where
  "demoSession = \<lparr>s_id = 1, s_name = ''demo'', s_objective = ''a story'', s_isActive = True,
     s_totalReflections = 0\<rparr>"

definition idleEngine :: reflection_engine where
  "idleEngine = \<lparr>session = None, currentCycle = 0, isGenerating = False,
     neuralEngine = None\<rparr>"

definition idleCtx :: "reflection_engine ctx" where
  "idleCtx = \<lparr>self = idleEngine, storage = emptyDb\<lparr>sessions := [demoSession]\<rparr>, sent = [],
     dbLog = [], clock = 0\<rparr>"

text \<open>The engine while a loop for session 1 is in its second cycle: the loop is active, it
  has a neural engine that has trained for two epochs, and the store holds reflections of
  the run.\<close>

definition busyEngine :: reflection_engine where
  "busyEngine = \<lparr>session = Some demoSession, currentCycle = 2, isGenerating = True,
     neuralEngine = Some (freshEngine\<lparr>vocabulary := [(''hi'', 0)], currentEpoch := 2\<rparr>)\<rparr>"

definition busyCtx :: "reflection_engine ctx" where
  "busyCtx = \<lparr>self = busyEngine,
     storage = emptyDb\<lparr>sessions := [demoSession],
       reflections :=
         [\<lparr>r_id = 1, r_sessionId = 1, r_cycle = 0, r_type = ''user_input'',
           r_content = ''hi'', r_metadata = [(''noiseLevel'', 0), (''reflectionCycles'', 5)]\<rparr>,
          \<lparr>r_id = 2, r_sessionId = 1, r_cycle = 1, r_type = ''analysis'',
           r_content = templateAt (analysisTemplates ''hi'') 1,
           r_metadata = [(''previousReflections'', 1)]\<rparr>]\<rparr>,
     sent = [], dbLog = [], clock = 40\<rparr>"

text \<open>The quiet environment with one stop request, which arrives during cycle 2.\<close>

definition stopEnv :: env where
  "stopEnv = quietEnv\<lparr>stopDuring := (\<lambda>c. c = 2)\<rparr>"



section \<open>Notions used in the proofs\<close>

text \<open>The id the vocabulary holds for a subword, and the subwords whose id is not 0.\<close>

definition idOf :: "vocab \<Rightarrow> string \<Rightarrow> nat" where
  "idOf v s = the (map_of v s)"

definition nonzeroId :: "vocab \<Rightarrow> string \<Rightarrow> bool" where
  "nonzeroId v s = (\<exists>k. map_of v s = Some (Suc k))"

text \<open>The keys of \<open>this.weights\<close> and \<open>this.biases\<close>, in the order initializeWeights sets
  them.\<close>

definition layerNames :: "string list" where
  "layerNames = [''embedding'', ''attention'', ''feedforward'', ''output'']"


section \<open>Notions used in the statements about the reflection loop\<close>

text \<open>The storage calls that only the training engine makes while a loop runs (from
  tokenizeText, saveWeightsToDatabase and trainStep).\<close>

definition trainingCalls :: "string list" where
  "trainingCalls = [''createTokenVocabulary'', ''getTokenByValue'', ''createModelWeights'',
     ''createTrainingBatch'', ''createLearningMetrics'']"

text \<open>An environment in which the storage calls of the reflection engine itself never
  fail: a call that fails is one of the training calls.\<close>

definition onlyTrainingCallsFail :: "env \<Rightarrow> bool" where
  "onlyTrainingCallsFail env \<longleftrightarrow>
     (\<forall>t name. dbFails env t name \<longrightarrow> name \<in> set trainingCalls)"

text \<open>The first stop request arrives during phase \<open>k\<close> of the run. Phase 0 is the part of
  the \<open>try\<close> block before the first loop test; phase \<open>c\<close>, for \<open>c\<close> from 1, is cycle \<open>c\<close> with
  the pause after it, up to the next loop test.\<close>

definition firstStopDuring :: "env \<Rightarrow> int \<Rightarrow> bool" where
  "firstStopDuring env k \<longleftrightarrow>
     0 \<le> k \<and> stopDuring env k \<and> (\<forall>j. 0 \<le> j \<and> j < k \<longrightarrow> \<not> stopDuring env j)"

text \<open>
  What a step of the training engine may change: it leaves the session, reflection,
  memory-insight and generated-content tables as they are, and every storage call it
  logs is one of the training calls.
\<close>

definition trainingOnly :: "'a ctx \<Rightarrow> 'b ctx \<Rightarrow> bool" where
  "trainingOnly w w' \<longleftrightarrow>
     sessions (storage w') = sessions (storage w)
   \<and> reflections (storage w') = reflections (storage w)
   \<and> memoryInsights (storage w') = memoryInsights (storage w)
   \<and> generatedContent (storage w') = generatedContent (storage w)
   \<and> (\<exists>new. dbLog w' = dbLog w @ new \<and> list_all (\<lambda>entry. fst entry \<in> set trainingCalls) new)"

definition trainingProg :: "('e, 'a) prog \<Rightarrow> bool" where
  "trainingProg m \<longleftrightarrow> (\<forall>w. trainingOnly w (snd (m w)))"

text \<open>The session, cycle and kind of a reflection row, and the rows one cycle is expected
  to persist, in order.\<close>

definition rowKind :: "reflection \<Rightarrow> nat \<times> int \<times> string" where
  "rowKind r = (r_sessionId r, r_cycle r, r_type r)"

definition cycleKinds :: "nat \<Rightarrow> int \<Rightarrow> int \<Rightarrow> (nat \<times> int \<times> string) list" where
  "cycleKinds sessionId noiseLevel c =
     [(sessionId, c, ''analysis''), (sessionId, c, ''memory_recall''),
      (sessionId, c, if c = 1 then ''strategy'' else ''refinement'')]
     @ (if 0 < noiseLevel then [(sessionId, c, ''noise_injection'')] else [])"

definition sessionExists :: "nat \<Rightarrow> 'e ctx \<Rightarrow> bool" where
  "sessionExists sessionId w \<longleftrightarrow> sessionId \<in> set (map s_id (sessions (storage w)))"

text \<open>The memory insights one cycle is expected to persist, by their session.\<close>

definition cycleInsights :: "nat \<Rightarrow> int \<Rightarrow> nat list" where
  "cycleInsights sessionId c = [sessionId]"

text \<open>
  A step of the reflection engine that persists reflections of the kinds \<open>ks\<close> and memory
  insights for the sessions \<open>is\<close>, in this order, and otherwise leaves the engine object,
  the session ids and the generated content as they are; and a program that returns
  normally with such a step from every state.
\<close>

definition appended ::
  "(nat \<times> int \<times> string) list \<Rightarrow> nat list \<Rightarrow> 'e ctx \<Rightarrow> 'e ctx \<Rightarrow> bool" where
  "appended ks is w w' \<longleftrightarrow>
     map rowKind (reflections (storage w')) = map rowKind (reflections (storage w)) @ ks
   \<and> map i_sessionId (memoryInsights (storage w'))
       = map i_sessionId (memoryInsights (storage w)) @ is
   \<and> self w' = self w
   \<and> map s_id (sessions (storage w')) = map s_id (sessions (storage w))
   \<and> generatedContent (storage w') = generatedContent (storage w)"

definition persists :: "('e, 'a) prog \<Rightarrow> (nat \<times> int \<times> string) list \<Rightarrow> nat list \<Rightarrow> bool" where
  "persists m ks is \<longleftrightarrow> (\<forall>w. \<exists>a w'. m w = (Inr a, w') \<and> appended ks is w w')"

text \<open>What a stretch of the loop does to the tables the claims speak about: it persists
  reflections of the kinds \<open>ks\<close> and memory insights for the sessions \<open>is\<close>, keeps the session
  ids and the generated content, and keeps an engine once there is one.\<close>

definition loopStep ::
  "(nat \<times> int \<times> string) list \<Rightarrow> nat list \<Rightarrow> reflection_engine ctx \<Rightarrow> reflection_engine ctx
     \<Rightarrow> bool" where
  "loopStep ks is w w' \<longleftrightarrow>
     map rowKind (reflections (storage w')) = map rowKind (reflections (storage w)) @ ks
   \<and> map i_sessionId (memoryInsights (storage w'))
       = map i_sessionId (memoryInsights (storage w)) @ is
   \<and> map s_id (sessions (storage w')) = map s_id (sessions (storage w))
   \<and> generatedContent (storage w') = generatedContent (storage w)
   \<and> (neuralEngine (self w) \<noteq> None \<longrightarrow> neuralEngine (self w') \<noteq> None)"

text \<open>
  The storage calls logged so far are \<open>quiet\<close> when every failed one among them is a
  training call. A state is \<open>settled\<close> (relative to the log \<open>L\<close> at the start) when the calls
  logged since then are quiet. A thrown error \<open>e\<close> leaves the state \<open>aborted\<close> when, for a
  PersistenceFailure, the last call logged is a failed call that is not a training call
  and the calls before it are quiet, and, for any other error, the state is settled.
  A program is \<open>guarded\<close> when, from a settled state, it returns in a settled state or
  throws in an aborted one.
\<close>

definition quiet :: "(string \<times> bool) list \<Rightarrow> bool" where
  "quiet calls \<longleftrightarrow> list_all (\<lambda>call. snd call \<or> fst call \<in> set trainingCalls) calls"

definition settled :: "(string \<times> bool) list \<Rightarrow> 'e ctx \<Rightarrow> bool" where
  "settled L w \<longleftrightarrow> (\<exists>new. dbLog w = L @ new \<and> quiet new)"

definition aborted :: "(string \<times> bool) list \<Rightarrow> error \<Rightarrow> 'e ctx \<Rightarrow> bool" where
  "aborted L e w \<longleftrightarrow>
     (if e = PersistenceFailure
      then (\<exists>pre name. dbLog w = L @ pre @ [(name, False)] \<and> quiet pre
              \<and> name \<notin> set trainingCalls)
      else settled L w)"



section \<open>The run with complete cycles\<close>

text \<open>
  What a stopped run is compared with: a run that performs a given number of cycles, each
  of them complete (the reflection cycle, then the training step when there is an engine),
  and then finalization. No step of it handles a stop request or tests isGenerating. The
  metadata of the user_input reflection still names the number of cycles asked for.
\<close>

definition completeCycle ::
  "env \<Rightarrow> nat \<Rightarrow> string \<Rightarrow> int \<Rightarrow> int \<Rightarrow> (reflection_engine, unit) prog" where
  "completeCycle env sessionId userInput cycle noiseLevel =
     andThen (modify (\<lambda>this. this\<lparr>currentCycle := cycle\<rparr>)) (\<lambda>u.
     andThen (performReflectionCycle env sessionId userInput cycle noiseLevel) (\<lambda>u.
     andThen getSelf (\<lambda>this.
     if neuralEngine this \<noteq> None then callEngine (trainStep env userInput)
     else succeed ())))"

fun completeCycles ::
  "env \<Rightarrow> nat \<Rightarrow> string \<Rightarrow> int \<Rightarrow> int list \<Rightarrow> (reflection_engine, unit) prog" where
  "completeCycles env sessionId userInput noiseLevel [] w = (Inr (), w)"
| "completeCycles env sessionId userInput noiseLevel (cycle # cycles) w =
     (case completeCycle env sessionId userInput cycle noiseLevel w of
        (Inl e, w') \<Rightarrow> (Inl e, w')
      | (Inr u, w') \<Rightarrow> completeCycles env sessionId userInput noiseLevel cycles w')"

definition completeRun ::
  "env \<Rightarrow> nat \<Rightarrow> string \<Rightarrow> int \<Rightarrow> int \<Rightarrow> int \<Rightarrow> (reflection_engine, unit) prog" where
  "completeRun env sessionId userInput reflectionCycles noiseLevel performed =
     andThen (beginLoop env sessionId) (\<lambda>u.
     andThen (createReflection env sessionId 0 ''user_input'' userInput
               [(''noiseLevel'', noiseLevel), (''reflectionCycles'', reflectionCycles)])
       (\<lambda>row.
     andThen (completeCycles env sessionId userInput noiseLevel [1..performed]) (\<lambda>u.
     generateFinalContent env sessionId userInput)))"

text \<open>The state with the flag isGenerating set to \<open>b\<close>; a program that does not depend on
  the flag and does not change it; and two outcomes that differ at most in the flag.\<close>

definition setGenerating :: "bool \<Rightarrow> reflection_engine ctx \<Rightarrow> reflection_engine ctx" where
  "setGenerating b w = w\<lparr>self := (self w)\<lparr>isGenerating := b\<rparr>\<rparr>"

definition flagBlind :: "(reflection_engine, 'a) prog \<Rightarrow> bool" where
  "flagBlind m \<longleftrightarrow>
     (\<forall>w b. m (setGenerating b w) = (fst (m w), setGenerating b (snd (m w))))"

definition sameButFlag ::
  "(error + 'a) \<times> reflection_engine ctx \<Rightarrow> (error + 'a) \<times> reflection_engine ctx \<Rightarrow> bool" where
  "sameButFlag res res' \<longleftrightarrow>
     fst res = fst res' \<and> setGenerating False (snd res) = setGenerating False (snd res')"

chapter \<open>Properties\<close>

section \<open>Properties of getSubwords\<close>

lemma bestSubword_prefix:
  "\<exists>k. 1 \<le> k \<and> k \<le> max 1 n \<and> bestSubword v remaining n = take k remaining"
proof (induction n)
  case 0
  show ?case by (rule exI [of _ 1]) simp
next
  case (Suc n)
  show ?case
  proof (cases "vocab_has v (take (Suc n) remaining) \<or> Suc n = 1")
    case True
    then show ?thesis by (intro exI [of _ "Suc n"]) (simp add: Let_def)
  next
    case False
    from Suc obtain k where "1 \<le> k" "k \<le> max 1 n" "bestSubword v remaining n = take k remaining"
      by blast
    with False show ?thesis by (intro exI [of _ k]) (auto simp: Let_def)
  qed
qed

lemma bestSubword_nonempty:
  "remaining \<noteq> [] \<Longrightarrow> 0 < length (bestSubword v remaining n)"
  using bestSubword_prefix [of n v remaining] by (cases remaining) auto

lemma bestSubword_length:
  "length (bestSubword v remaining (min (length remaining) 8)) \<le> 8"
  using bestSubword_prefix [of "min (length remaining) 8" v remaining] by auto

lemma bestSubword_is_take:
  "bestSubword v remaining n = take (length (bestSubword v remaining n)) remaining"
proof -
  obtain k where k: "bestSubword v remaining n = take k remaining"
    using bestSubword_prefix [of n v remaining] by blast
  show ?thesis
  proof (cases "k \<le> length remaining")
    case True
    with k show ?thesis by (simp add: min_def)
  next
    case False
    with k show ?thesis by simp
  qed
qed

lemma bestSubword_unfold:
  "bestSubword v remaining n =
     (if n = 0 then take 1 remaining
      else if vocab_has v (take n remaining) \<or> n = 1 then take n remaining
      else bestSubword v remaining (n - 1))"
  by (cases n) (simp_all add: Let_def)

lemma subwordLoop_step:
  "0 < length remaining \<Longrightarrow>
   subwordLoop v subwords remaining =
     subwordLoop v (subwords @ [bestSubword v remaining (min (length remaining) 8)])
       (drop (length (bestSubword v remaining (min (length remaining) 8))) remaining)"
  by (subst subwordLoop.simps) simp

lemma subwordLoop_done: "subwordLoop v subwords [] = subwords"
  by (subst subwordLoop.simps) simp

lemma subwordLoop_concat:
  "concat (subwordLoop v subwords remaining) = concat subwords @ remaining"
proof (induction v subwords remaining rule: subwordLoop.induct)
  case (1 v subwords remaining)
  show ?case
  proof (cases remaining)
    case Nil
    then show ?thesis by (simp add: subwordLoop_done)
  next
    case (Cons c cs)
    let ?b = "bestSubword v remaining (min (length remaining) 8)"
    from Cons have pos: "0 < length remaining" by simp
    have "concat (subwordLoop v subwords remaining)
        = concat (subwords @ [?b]) @ drop (length ?b) remaining"
      using "1.IH" [OF pos] by (simp only: subwordLoop_step [OF pos])
    also have "\<dots> = concat subwords @ (?b @ drop (length ?b) remaining)" by simp
    also have "?b @ drop (length ?b) remaining = remaining"
      using bestSubword_is_take [of v remaining "min (length remaining) 8"]
        append_take_drop_id [of "length ?b" remaining] by simp
    finally show ?thesis .
  qed
qed

lemma subwordLoop_pieces:
  "(\<forall>s \<in> set subwords. s \<noteq> [] \<and> length s \<le> 8) \<Longrightarrow>
   (\<forall>s \<in> set (subwordLoop v subwords remaining). s \<noteq> [] \<and> length s \<le> 8)"
proof (induction v subwords remaining rule: subwordLoop.induct)
  case (1 v subwords remaining)
  show ?case
  proof (cases remaining)
    case Nil
    with "1.prems" show ?thesis by (simp add: subwordLoop_done)
  next
    case (Cons c cs)
    let ?b = "bestSubword v remaining (min (length remaining) 8)"
    from Cons have pos: "0 < length remaining" by simp
    have b: "?b \<noteq> [] \<and> length ?b \<le> 8"
      using pos bestSubword_nonempty [of remaining v "min (length remaining) 8"]
        bestSubword_length [of v remaining] by auto
    have "\<forall>s \<in> set (subwords @ [?b]). s \<noteq> [] \<and> length s \<le> 8"
      using "1.prems" b by auto
    from "1.IH" [OF pos this] show ?thesis by (simp only: subwordLoop_step [OF pos])
  qed
qed

text \<open>
  Claim C10. For every non-empty word, getSubwords returns (it is a total function,
  its loop measured by the length of the remainder, which every iteration shortens by
  at least one character), every returned subword is non-empty and has at most eight
  characters, and the returned subwords concatenate to the word.
\<close>

theorem getSubwords_pieces:
  assumes "word \<noteq> []"
  shows "(\<forall>s \<in> set (getSubwords v word). s \<noteq> [] \<and> length s \<le> 8)
       \<and> concat (getSubwords v word) = word
       \<and> (\<forall>remaining. 0 < length remaining \<longrightarrow>
            length (drop (length (bestSubword v remaining (min (length remaining) 8))) remaining)
              < length remaining)"
proof (intro conjI allI impI)
  show "\<forall>s \<in> set (getSubwords v word). s \<noteq> [] \<and> length s \<le> 8"
    using assms subwordLoop_pieces [of "[]" v word] by (simp add: getSubwords_def)
  show "concat (getSubwords v word) = word"
    by (simp add: getSubwords_def subwordLoop_concat)
next
  fix remaining :: string
  assume "0 < length remaining"
  then show "length (drop (length (bestSubword v remaining (min (length remaining) 8))) remaining)
      < length remaining"
    using bestSubword_nonempty [of remaining v "min (length remaining) 8"] by auto
qed

theorem getSubwords_pieces_witness:
  "''unbelievable'' \<noteq> []
   \<and> getSubwords [(''un'', 0), (''believ'', 1)] ''unbelievable''
       = [''un'', ''believ'', ''a'', ''b'', ''l'', ''e'']
   \<and> list_all (\<lambda>s. s \<noteq> [] \<and> length s \<le> 8)
         (getSubwords [(''un'', 0), (''believ'', 1)] ''unbelievable'')
   \<and> concat (getSubwords [(''un'', 0), (''believ'', 1)] ''unbelievable'') = ''unbelievable''"
proof -
  have ne: "''unbelievable'' \<noteq> []" by simp
  have run: "getSubwords [(''un'', 0), (''believ'', 1)] ''unbelievable''
      = [''un'', ''believ'', ''a'', ''b'', ''l'', ''e'']"
    by (simp add: getSubwords_def subwordLoop_step subwordLoop_done bestSubword_unfold
        vocab_has_def)
  note inst = getSubwords_pieces [OF ne, of "[(''un'', 0), (''believ'', 1)]"]
  have pieces: "list_all (\<lambda>s. s \<noteq> [] \<and> length s \<le> 8)
         (getSubwords [(''un'', 0), (''believ'', 1)] ''unbelievable'')"
    using inst [THEN conjunct1] by (simp only: list_all_iff)
  have cat: "concat (getSubwords [(''un'', 0), (''believ'', 1)] ''unbelievable'')
      = ''unbelievable''"
    by (rule inst [THEN conjunct2, THEN conjunct1])
  show ?thesis by (intro conjI ne run pieces cat)
qed


section \<open>Properties of calculateLoss\<close>

lemma lossLoop_count:
  "lossLoop m t n i acc =
     acc + real (length (filter (\<lambda>j. tokenAt m j \<noteq> tokenAt t j) [i..<n]))"
proof (induction m t n i acc rule: lossLoop.induct)
  case (1 m t n i acc)
  show ?case
  proof (cases "i < n")
    case True
    then have u: "[i..<n] = i # [i + 1..<n]" by (simp add: upt_conv_Cons)
    show ?thesis
      using True "1.IH" by (subst lossLoop.simps) (simp add: u)
  next
    case False
    then show ?thesis by (subst lossLoop.simps) simp
  qed
qed

lemma padTokens_nth:
  "length tokens \<le> n \<Longrightarrow> j < n \<Longrightarrow> padTokens n tokens ! j = tokenAt tokens j"
  by (simp add: padTokens_def tokenAt_def nth_append)

lemma padTokens_length: "length tokens \<le> n \<Longrightarrow> length (padTokens n tokens) = n"
  by (simp add: padTokens_def)

lemma zip_as_map:
  "length xs = n \<Longrightarrow> length ys = n \<Longrightarrow> zip xs ys = map (\<lambda>j. (xs ! j, ys ! j)) [0..<n]"
  by (rule nth_equalityI) simp_all

lemma mismatches_padded:
  assumes "length a \<le> n" "length b \<le> n"
  shows "length (filter (\<lambda>(x, y). x \<noteq> y) (zip (padTokens n a) (padTokens n b)))
       = length (filter (\<lambda>j. tokenAt a j \<noteq> tokenAt b j) [0..<n])"
proof -
  have z: "zip (padTokens n a) (padTokens n b)
      = map (\<lambda>j. (padTokens n a ! j, padTokens n b ! j)) [0..<n]"
    using assms by (intro zip_as_map padTokens_length)
  have "filter (\<lambda>j. padTokens n a ! j \<noteq> padTokens n b ! j) [0..<n]
      = filter (\<lambda>j. tokenAt a j \<noteq> tokenAt b j) [0..<n]"
    using assms by (intro filter_cong) (simp_all add: padTokens_nth)
  then show ?thesis
    unfolding z by (simp add: filter_map o_def)
qed

lemma calculateLoss_eq_hamming:
  "calculateLoss out tgt = hammingLoss (splitSpace out) (splitSpace tgt)"
  by (simp add: calculateLoss_def hammingLoss_def Let_def lossLoop_count mismatches_padded)

lemma splitSpaceFrom_nonempty: "splitSpaceFrom cur s \<noteq> []"
  by (induction s arbitrary: cur) auto

lemma calculateLoss_range: "0 \<le> calculateLoss out tgt \<and> calculateLoss out tgt \<le> 1"
proof -
  let ?m = "splitSpace out" and ?t = "splitSpace tgt"
  let ?n = "max (length ?m) (length ?t)"
  let ?k = "length (filter (\<lambda>j. tokenAt ?m j \<noteq> tokenAt ?t j) [0..<?n])"
  have "?k \<le> length [0..<?n]" by (rule length_filter_le)
  then have k: "real ?k \<le> real ?n" by simp
  have "0 < length ?m"
    using splitSpaceFrom_nonempty [of "[]" out] by (simp add: splitSpace_def)
  then have n: "0 < real ?n" by (simp add: less_max_iff_disj)
  have eq: "calculateLoss out tgt = real ?k / real ?n"
    by (simp add: calculateLoss_def Let_def lossLoop_count)
  show ?thesis unfolding eq using k n by (simp add: divide_le_eq_1)
qed

lemma calculateLoss_same: "calculateLoss x x = 0"
  by (simp add: calculateLoss_def Let_def lossLoop_count)

lemma calculateLoss_abc: "calculateLoss ''a b c'' '''' = 1"
  by (simp add: calculateLoss_def Let_def lossLoop_count splitSpace_def tokenAt_def)

text \<open>
  Claim C2, as the specification words it: the loss is the word-level Hamming distance of
  the two strings \<^emph>\<open>split on white space\<close>. The code splits on the single space character
  only, so a tab does not separate words: for the output \<open>a<TAB>b\<close> and the target
  \<open>a b\<close> the code compares the one token \<open>a<TAB>b\<close> with \<open>a\<close> and the padding with
  \<open>b\<close> and returns 1, while the white-space Hamming distance of the two texts is 0.
\<close>

theorem calculateLoss_whitespace_counterexample:
  "calculateLoss [CHR ''a'', CHR 0x09, CHR ''b''] ''a b'' = 1
   \<and> whitespaceHammingLoss [CHR ''a'', CHR 0x09, CHR ''b''] ''a b'' = 0
   \<and> calculateLoss [CHR ''a'', CHR 0x09, CHR ''b''] ''a b''
       \<noteq> whitespaceHammingLoss [CHR ''a'', CHR 0x09, CHR ''b''] ''a b''"
  by (simp add: calculateLoss_def Let_def lossLoop_count splitSpace_def tokenAt_def
      whitespaceHammingLoss_def hammingLoss_def splitWhitespace_def padTokens_def
      isWhitespace_def)

text \<open>
  Claim C2, amended: calculateLoss is the word-level Hamming distance of the two strings
  split at every single space character (the shorter token sequence padded with empty
  tokens to the longer length, position-wise mismatches counted and divided by the longer
  length); its value lies in [0, 1]; the loss of any text against itself is 0; and the
  loss of \<open>a b c\<close> against the empty text is 1.
\<close>

theorem calculateLoss_hamming:
  "calculateLoss modelOutput gptTarget = hammingLoss (splitSpace modelOutput) (splitSpace gptTarget)
   \<and> 0 \<le> calculateLoss modelOutput gptTarget \<and> calculateLoss modelOutput gptTarget \<le> 1
   \<and> calculateLoss x x = 0
   \<and> calculateLoss ''a b c'' '''' = 1"
  using calculateLoss_eq_hamming [of modelOutput gptTarget] calculateLoss_range [of modelOutput gptTarget]
    calculateLoss_same [of x] calculateLoss_abc
  by (intro conjI) simp_all

theorem calculateLoss_hamming_witness:
  "calculateLoss ''the cat sat'' ''the dog sat'' = 1 / 3
   \<and> calculateLoss ''the cat sat'' ''the cat sat'' = 0"
proof -
  note inst = calculateLoss_hamming [of "''the cat sat''" "''the dog sat''" "''the cat sat''"]
  have "hammingLoss (splitSpace ''the cat sat'') (splitSpace ''the dog sat'') = 1 / 3"
    by (simp add: hammingLoss_def padTokens_def splitSpace_def)
  with inst show ?thesis by simp
qed


section \<open>Properties of softmax\<close>

lemma foldl_plus: "foldl (+) a xs = a + sum_list (xs :: real list)"
  by (induction xs arbitrary: a) simp_all

lemma sum_exp_pos: "0 < sum_list (map (\<lambda>x. exp (x - m)) (l # ls :: real list))"
proof -
  have "0 \<le> sum_list (map (\<lambda>x. exp (x - m)) ls)"
    by (rule sum_list_nonneg) auto
  moreover have "0 < exp (l - m)" by simp
  ultimately show ?thesis by (simp add: add_pos_nonneg)
qed

lemma sum_list_scaled:
  "sum_list (map (\<lambda>x. f x / s) xs) = sum_list (map f xs) / (s :: real)"
  by (induction xs) (simp_all add: add_divide_distrib)

text \<open>
  Claim C9. For every non-empty logit vector (the entries are real numbers, so all finite;
  all-equal entries included) softmax returns one probability per logit, every entry is
  at least 0, and the entries sum to exactly 1.
\<close>

theorem softmax_distribution:
  assumes "logits \<noteq> []"
  shows "(\<forall>p \<in> set (softmax logits). 0 \<le> p) \<and> sum_list (softmax logits) = 1
    \<and> length (softmax logits) = length logits"
proof -
  from assms obtain l ls where eq: "logits = l # ls" by (cases logits) auto
  define m where "m = fold max ls l"
  define s where "s = sum_list (map (\<lambda>x. exp (x - m)) (l # ls))"
  have s: "0 < s" unfolding s_def by (rule sum_exp_pos)
  have sm: "softmax logits = map (\<lambda>x. exp (x - m) / s) (l # ls)"
    unfolding eq s_def m_def by (simp add: Let_def foldl_plus)
  have "sum_list (map (\<lambda>x. exp (x - m) / s) (l # ls)) = s / s"
    unfolding s_def by (rule sum_list_scaled)
  with s have one: "sum_list (softmax logits) = 1" by (simp add: sm)
  have nonneg: "\<forall>p \<in> set (softmax logits). 0 \<le> p"
    unfolding sm using s by (simp add: less_imp_le)
  have len: "length (softmax logits) = length logits"
    unfolding sm by (simp add: eq)
  show ?thesis by (intro conjI nonneg one len)
qed

theorem softmax_distribution_witness:
  "[2, 2] \<noteq> ([] :: real list)
   \<and> softmax [2, 2] = [1 / 2, 1 / 2]
   \<and> list_all (\<lambda>p. 0 \<le> p) (softmax [2, 2])
   \<and> sum_list (softmax [2, 2]) = 1"
proof -
  have ne: "[2, 2] \<noteq> ([] :: real list)" by simp
  note inst = softmax_distribution [OF ne]
  have run: "softmax [2, 2] = [1 / 2, 1 / 2]" by (simp add: Let_def)
  have nonneg: "list_all (\<lambda>p. 0 \<le> p) (softmax [2, 2])"
    using inst [THEN conjunct1] by (simp only: list_all_iff)
  have one: "sum_list (softmax [2, 2]) = 1"
    by (rule inst [THEN conjunct2, THEN conjunct1])
  show ?thesis by (intro conjI ne run nonneg one)
qed


section \<open>Properties of tokenizeText\<close>

lemmas prog_defs = andThen_def succeed_def throwError_def tryCatch_def modify_def broadcast_def
  tick_def getSelf_def fromResult_def storageCall_def

lemmas tok_defs = tokenizeText_def splitWhitespace_def toLowerCase_def lowerChar_def
  isWhitespace_def getSubwords_def tokenizeSubword_def Let_def isFalsy_def vocab_get_def
  vocab_set_def vocab_size_def vocab_has_def createTokenVocabulary_def getTokenByValue_def

lemma vocab_has_keys: "vocab_has v k \<longleftrightarrow> k \<in> set (map fst v)"
  by (simp add: vocab_has_def map_of_eq_None_iff)

lemma bestSubword_keys:
  "map fst v = map fst v' \<Longrightarrow> bestSubword v remaining n = bestSubword v' remaining n"
  by (induction n) (simp_all add: Let_def vocab_has_keys)

lemma subwordLoop_keys:
  "map fst v = map fst v' \<Longrightarrow> subwordLoop v subwords remaining = subwordLoop v' subwords remaining"
proof (induction v subwords remaining rule: subwordLoop.induct)
  case (1 v subwords remaining)
  show ?case
  proof (cases remaining)
    case Nil
    then show ?thesis by (simp add: subwordLoop_done)
  next
    case (Cons c cs)
    then have pos: "0 < length remaining" by simp
    have b: "bestSubword v remaining (min (length remaining) 8)
        = bestSubword v' remaining (min (length remaining) 8)"
      using "1.prems" by (rule bestSubword_keys)
    show ?thesis
      using "1.IH" [OF pos "1.prems"]
      by (simp only: subwordLoop_step [OF pos, of v] subwordLoop_step [OF pos, of v'] b)
  qed
qed

lemma getSubwords_keys:
  "map fst v = map fst v' \<Longrightarrow> getSubwords v word = getSubwords v' word"
  using subwordLoop_keys [of v v' "[]" word] by (simp add: getSubwords_def)

lemma nonzeroId_not_falsy: "nonzeroId v s \<Longrightarrow> \<not> isFalsy (vocab_get v s)"
  by (auto simp: nonzeroId_def isFalsy_def vocab_get_def)

lemma tokenizeSubword_nonzero:
  assumes "\<not> dbFails env (clock w) ''getTokenByValue''" "nonzeroId (vocabulary (self w)) s"
  shows "\<exists>w'. tokenizeSubword env s w = (Inr (idOf (vocabulary (self w)) s), w')
           \<and> self w' = self w \<and> storage w' = storage w \<and> clock w' = Suc (clock w)"
  using assms nonzeroId_not_falsy [OF assms(2)]
  by (simp add: tokenizeSubword_def Let_def prog_defs getTokenByValue_def vocab_get_def idOf_def)

lemma tokenizeSubword_known:
  assumes nf: "\<forall>t name. \<not> dbFails env t name" and k: "s \<in> set (map fst (vocabulary (self w)))"
  shows "\<exists>tid w'. tokenizeSubword env s w = (Inr tid, w')
           \<and> map fst (vocabulary (self w')) = map fst (vocabulary (self w))
           \<and> map_of (vocabulary (self w')) s = Some tid \<and> tid \<noteq> 0
           \<and> (\<forall>k. k \<noteq> s \<longrightarrow> map_of (vocabulary (self w')) k = map_of (vocabulary (self w)) k)"
proof (cases "isFalsy (vocab_get (vocabulary (self w)) s)")
  case True
  from k have "vocabulary (self w) \<noteq> []" by auto
  then have "length (vocabulary (self w)) \<noteq> 0" by simp
  with True nf k show ?thesis
    by (simp add: tokenizeSubword_def Let_def prog_defs createTokenVocabulary_def
        vocab_set_def vocab_size_def update_keys update_conv')
next
  case False
  from k obtain v where v: "map_of (vocabulary (self w)) s = Some v"
    by (metis map_of_eq_None_iff not_Some_eq set_map)
  with False have "v \<noteq> 0" by (auto simp: isFalsy_def vocab_get_def)
  with False nf v show ?thesis
    by (simp add: tokenizeSubword_def Let_def prog_defs getTokenByValue_def vocab_get_def)
qed

lemma tokenizeSubwords_known:
  assumes nf: "\<forall>t name. \<not> dbFails env t name"
  shows "\<forall>s \<in> set subs. s \<in> set (map fst (vocabulary (self w))) \<Longrightarrow>
         toks = map (idOf (vocabulary (self w))) seen \<Longrightarrow>
         \<forall>s \<in> set seen. nonzeroId (vocabulary (self w)) s \<Longrightarrow>
         \<exists>toks' w'. tokenizeSubwords env subs toks w = (Inr toks', w')
           \<and> map fst (vocabulary (self w')) = map fst (vocabulary (self w))
           \<and> toks' = map (idOf (vocabulary (self w'))) (seen @ subs)
           \<and> (\<forall>s \<in> set (seen @ subs). nonzeroId (vocabulary (self w')) s)"
proof (induction subs arbitrary: w toks seen)
  case Nil
  then show ?case by simp
next
  case (Cons s subs)
  from Cons.prems(1) have k: "s \<in> set (map fst (vocabulary (self w)))" by simp
  from tokenizeSubword_known [OF nf k] obtain tid w1 where
    step: "tokenizeSubword env s w = (Inr tid, w1)"
    and keys: "map fst (vocabulary (self w1)) = map fst (vocabulary (self w))"
    and tid: "map_of (vocabulary (self w1)) s = Some tid" "tid \<noteq> 0"
    and other: "\<And>k. k \<noteq> s \<Longrightarrow> map_of (vocabulary (self w1)) k = map_of (vocabulary (self w)) k"
    by blast
  have nzs: "nonzeroId (vocabulary (self w1)) s"
    using tid by (cases tid) (auto simp: nonzeroId_def)
  have same: "map_of (vocabulary (self w1)) x = map_of (vocabulary (self w)) x"
    if "nonzeroId (vocabulary (self w)) x" for x
  proof (cases "x = s")
    case False
    then show ?thesis by (rule other)
  next
    case True
    with that obtain j where j: "map_of (vocabulary (self w)) s = Some (Suc j)"
      by (auto simp: nonzeroId_def)
    then have "nonzeroId (vocabulary (self w)) s" by (auto simp: nonzeroId_def)
    from tokenizeSubword_nonzero [OF nf [rule_format] this] step
    have "self w1 = self w" by auto
    with True show ?thesis by simp
  qed
  have p1: "\<forall>s \<in> set subs. s \<in> set (map fst (vocabulary (self w1)))"
    using Cons.prems(1) keys by simp
  have p2: "toks @ [tid] = map (idOf (vocabulary (self w1))) (seen @ [s])"
    using Cons.prems(2,3) tid same by (simp add: idOf_def)
  have p3: "\<forall>x \<in> set (seen @ [s]). nonzeroId (vocabulary (self w1)) x"
    using Cons.prems(3) nzs same by (auto simp: nonzeroId_def)
  from Cons.IH [OF p1 p2 p3] step keys show ?case by simp
qed


lemma tokenizeWords_known:
  assumes nf: "\<forall>t name. \<not> dbFails env t name"
  shows "map fst (vocabulary (self w)) = map fst v0 \<Longrightarrow>
         \<forall>word \<in> set ws. \<forall>s \<in> set (getSubwords v0 word). s \<in> set (map fst v0) \<Longrightarrow>
         toks = map (idOf (vocabulary (self w))) seen \<Longrightarrow>
         \<forall>s \<in> set seen. nonzeroId (vocabulary (self w)) s \<Longrightarrow>
         \<exists>toks' w'. tokenizeWords env ws toks w = (Inr toks', w')
           \<and> map fst (vocabulary (self w')) = map fst v0
           \<and> toks' = map (idOf (vocabulary (self w')))
                        (seen @ concat (map (getSubwords v0) ws))
           \<and> (\<forall>s \<in> set (seen @ concat (map (getSubwords v0) ws)).
                 nonzeroId (vocabulary (self w')) s)"
proof (induction ws arbitrary: w toks seen)
  case Nil
  then show ?case by simp
next
  case (Cons word ws)
  have subs: "getSubwords (vocabulary (self w)) word = getSubwords v0 word"
    using Cons.prems(1) by (rule getSubwords_keys)
  have k: "\<forall>s \<in> set (getSubwords v0 word). s \<in> set (map fst (vocabulary (self w)))"
    using Cons.prems(1,2) by simp
  from tokenizeSubwords_known [OF nf k Cons.prems(3) Cons.prems(4)]
  obtain toks1 w1 where
    step: "tokenizeSubwords env (getSubwords v0 word) toks w = (Inr toks1, w1)"
    and keys: "map fst (vocabulary (self w1)) = map fst (vocabulary (self w))"
    and toks1: "toks1 = map (idOf (vocabulary (self w1))) (seen @ getSubwords v0 word)"
    and nz: "\<forall>s \<in> set (seen @ getSubwords v0 word). nonzeroId (vocabulary (self w1)) s"
    by blast
  have p1: "map fst (vocabulary (self w1)) = map fst v0" using keys Cons.prems(1) by simp
  have p2: "\<forall>word \<in> set ws. \<forall>s \<in> set (getSubwords v0 word). s \<in> set (map fst v0)"
    using Cons.prems(2) by simp
  from Cons.IH [OF p1 p2 toks1 nz] step subs show ?case by simp
qed

lemma tokenizeSubwords_nonzero:
  assumes nf: "\<forall>t name. \<not> dbFails env t name"
  shows "\<forall>s \<in> set subs. nonzeroId (vocabulary (self w)) s \<Longrightarrow>
         \<exists>w'. tokenizeSubwords env subs toks w
                 = (Inr (toks @ map (idOf (vocabulary (self w))) subs), w')
           \<and> self w' = self w \<and> storage w' = storage w"
proof (induction subs arbitrary: w toks)
  case Nil
  then show ?case by simp
next
  case (Cons s subs)
  from Cons.prems have nz: "nonzeroId (vocabulary (self w)) s" by simp
  from tokenizeSubword_nonzero [OF nf [rule_format] nz] obtain w1 where
    step: "tokenizeSubword env s w = (Inr (idOf (vocabulary (self w)) s), w1)"
    and same: "self w1 = self w" "storage w1 = storage w"
    by blast
  have "\<forall>s \<in> set subs. nonzeroId (vocabulary (self w1)) s" using Cons.prems same by simp
  from Cons.IH [OF this, of "toks @ [idOf (vocabulary (self w)) s]"] step same
  show ?case by simp
qed

lemma tokenizeWords_nonzero:
  assumes nf: "\<forall>t name. \<not> dbFails env t name"
  shows "\<forall>word \<in> set ws. \<forall>s \<in> set (getSubwords (vocabulary (self w)) word).
            nonzeroId (vocabulary (self w)) s \<Longrightarrow>
         \<exists>w'. tokenizeWords env ws toks w
                 = (Inr (toks @ map (idOf (vocabulary (self w)))
                                  (concat (map (getSubwords (vocabulary (self w))) ws))), w')
           \<and> self w' = self w \<and> storage w' = storage w"
proof (induction ws arbitrary: w toks)
  case Nil
  then show ?case by simp
next
  case (Cons word ws)
  have nz: "\<forall>s \<in> set (getSubwords (vocabulary (self w)) word). nonzeroId (vocabulary (self w)) s"
    using Cons.prems by simp
  from tokenizeSubwords_nonzero [OF nf nz, of toks] obtain w1 where
    step: "tokenizeSubwords env (getSubwords (vocabulary (self w)) word) toks w
        = (Inr (toks @ map (idOf (vocabulary (self w)))
                  (getSubwords (vocabulary (self w)) word)), w1)"
    and same: "self w1 = self w" "storage w1 = storage w"
    by blast
  have "\<forall>word \<in> set ws. \<forall>s \<in> set (getSubwords (vocabulary (self w1)) word).
      nonzeroId (vocabulary (self w1)) s"
    using Cons.prems same by simp
  from Cons.IH [OF this, of "toks @ map (idOf (vocabulary (self w)))
                  (getSubwords (vocabulary (self w)) word)"] step same
  show ?case by simp
qed

text \<open>
  Claim C3. When no storage call fails and every subword of the text (as getSubwords
  segments its lower-cased, white-space separated words against the current vocabulary)
  is a key of the vocabulary, tokenizeText returns on that text twice in a row with the
  same token ids, and the second call leaves the vocabulary (and so its size) and the
  stored token rows as they are; the first call does not change the size either.
\<close>

theorem tokenizeText_known_twice:
  assumes nf: "\<forall>t name. \<not> dbFails env t name"
    and known: "\<forall>word \<in> set (splitWhitespace (toLowerCase txt)).
                  \<forall>s \<in> set (getSubwords (vocabulary (self w)) word).
                    vocab_has (vocabulary (self w)) s"
  shows "\<exists>tokens w1 w2.
           tokenizeText env txt w = (Inr tokens, w1)
         \<and> tokenizeText env txt w1 = (Inr tokens, w2)
         \<and> vocabulary (self w2) = vocabulary (self w1)
         \<and> vocab_size (vocabulary (self w2)) = vocab_size (vocabulary (self w1))
         \<and> vocab_size (vocabulary (self w1)) = vocab_size (vocabulary (self w))
         \<and> tokenVocabulary (storage w2) = tokenVocabulary (storage w1)"
proof -
  let ?ws = "splitWhitespace (toLowerCase txt)"
  let ?v0 = "vocabulary (self w)"
  let ?all = "concat (map (getSubwords ?v0) ?ws)"
  have k: "\<forall>word \<in> set ?ws. \<forall>s \<in> set (getSubwords ?v0 word). s \<in> set (map fst ?v0)"
    using known by (simp add: vocab_has_keys)
  from tokenizeWords_known [OF nf refl k, of "[]" "[]"]
  obtain tokens w1 where
    first: "tokenizeWords env ?ws [] w = (Inr tokens, w1)"
    and keys: "map fst (vocabulary (self w1)) = map fst ?v0"
    and tokens: "tokens = map (idOf (vocabulary (self w1))) ?all"
    and nz: "\<forall>s \<in> set ?all. nonzeroId (vocabulary (self w1)) s"
    by auto
  have subs: "getSubwords (vocabulary (self w1)) = getSubwords ?v0"
    using keys by (intro ext getSubwords_keys)
  have nz1: "\<forall>word \<in> set ?ws. \<forall>s \<in> set (getSubwords (vocabulary (self w1)) word).
      nonzeroId (vocabulary (self w1)) s"
    using nz by (auto simp: subs)
  from tokenizeWords_nonzero [OF nf nz1, of "[]"] obtain w2 where
    second: "tokenizeWords env ?ws [] w1
        = (Inr (map (idOf (vocabulary (self w1)))
                  (concat (map (getSubwords (vocabulary (self w1))) ?ws))), w2)"
    and same: "self w2 = self w1" "storage w2 = storage w1"
    by auto
  have second': "tokenizeWords env ?ws [] w1 = (Inr tokens, w2)"
    using second by (simp add: subs tokens)
  have size: "vocab_size (vocabulary (self w1)) = vocab_size ?v0"
    using arg_cong [OF keys, of length] by (simp add: vocab_size_def)
  show ?thesis
    using first second' same size by (simp add: tokenizeText_def)
qed


theorem tokenizeText_known_twice_witness:
  "(\<forall>t name. \<not> dbFails quietEnv t name)
   \<and> list_all (\<lambda>word. list_all (vocab_has (vocabulary (self knownEngineCtx)))
                 (getSubwords (vocabulary (self knownEngineCtx)) word))
        (splitWhitespace (toLowerCase ''hi yo''))
   \<and> fst (tokenizeText quietEnv ''hi yo'' knownEngineCtx) = Inr [2, 1]
   \<and> fst (tokenizeText quietEnv ''hi yo''
            (snd (tokenizeText quietEnv ''hi yo'' knownEngineCtx))) = Inr [2, 1]
   \<and> (\<exists>tokens w1 w2.
           tokenizeText quietEnv ''hi yo'' knownEngineCtx = (Inr tokens, w1)
         \<and> tokenizeText quietEnv ''hi yo'' w1 = (Inr tokens, w2)
         \<and> vocabulary (self w2) = vocabulary (self w1)
         \<and> vocab_size (vocabulary (self w2)) = vocab_size (vocabulary (self w1))
         \<and> vocab_size (vocabulary (self w1)) = vocab_size (vocabulary (self knownEngineCtx))
         \<and> tokenVocabulary (storage w2) = tokenVocabulary (storage w1))"
proof -
  have nf: "\<forall>t name. \<not> dbFails quietEnv t name" by (simp add: quietEnv_def)
  have known: "list_all (\<lambda>word. list_all (vocab_has (vocabulary (self knownEngineCtx)))
                 (getSubwords (vocabulary (self knownEngineCtx)) word))
        (splitWhitespace (toLowerCase ''hi yo''))"
    by (simp add: tok_defs knownEngineCtx_def freshEngineCtx_def)
  have known': "\<forall>word \<in> set (splitWhitespace (toLowerCase ''hi yo'')).
      \<forall>s \<in> set (getSubwords (vocabulary (self knownEngineCtx)) word).
        vocab_has (vocabulary (self knownEngineCtx)) s"
    using known by (simp only: list_all_iff)
  have run1: "fst (tokenizeText quietEnv ''hi yo'' knownEngineCtx) = Inr [2, 1]"
    by (simp add: prog_defs tok_defs quietEnv_def knownEngineCtx_def freshEngineCtx_def
        freshEngine_def emptyDb_def)
  have run2: "fst (tokenizeText quietEnv ''hi yo''
            (snd (tokenizeText quietEnv ''hi yo'' knownEngineCtx))) = Inr [2, 1]"
    by (simp add: prog_defs tok_defs quietEnv_def knownEngineCtx_def freshEngineCtx_def
        freshEngine_def emptyDb_def)
  show ?thesis
    by (intro conjI nf known run1 run2 tokenizeText_known_twice [OF nf known'])
qed

text \<open>
  Claim C4 says that the vocabulary is at all times a bijection from subwords to the ids
  0..size-1 and that an id, once assigned, never changes. The code tests a looked-up id
  with \<open>!tokenId\<close>, which is also true for the id 0, so the subword that holds id 0 is
  treated as new at its next occurrence. On a new engine, tokenizing \<open>hi\<close> assigns id 0 to
  \<open>hi\<close>; tokenizing \<open>hi yo\<close> next moves \<open>hi\<close> to id 1, stores a second token row for it,
  and gives the new subword \<open>yo\<close> id 1 as well: the id of \<open>hi\<close> has changed, two subwords
  share id 1 and no subword has id 0.
\<close>

theorem tokenizeText_reassigns_id_zero:
  "fst (tokenizeText quietEnv ''hi'' freshEngineCtx) = Inr [0]
   \<and> vocabulary (self (snd (tokenizeText quietEnv ''hi'' freshEngineCtx))) = [(''hi'', 0)]
   \<and> fst (tokenizeText quietEnv ''hi yo'' (snd (tokenizeText quietEnv ''hi'' freshEngineCtx)))
       = Inr [1, 1]
   \<and> vocabulary (self (snd (tokenizeText quietEnv ''hi yo''
                              (snd (tokenizeText quietEnv ''hi'' freshEngineCtx)))))
       = [(''hi'', 1), (''yo'', 1)]
   \<and> map (\<lambda>row. (t_token row, t_tokenId row))
        (tokenVocabulary (storage (snd (tokenizeText quietEnv ''hi yo''
                              (snd (tokenizeText quietEnv ''hi'' freshEngineCtx))))))
       = [(''hi'', 0), (''hi'', 1), (''yo'', 1)]"
  by (simp add: prog_defs tok_defs quietEnv_def freshEngineCtx_def freshEngine_def
      emptyDb_def)


section \<open>Properties of updateWeights\<close>

lemma map_enumerate_keep:
  "(\<And>i x. n \<le> i \<Longrightarrow> f i x = x) \<Longrightarrow> map (\<lambda>(i, x). f i x) (enumerate n xs) = xs"
  by (induction xs arbitrary: n) simp_all

lemma jsMinus_zero: "jsMinus b (Fin 0) = b"
  by (cases b) (simp_all add: jsMinus_def)

lemma jsMinus_NaN: "jsMinus b NaN = NaN"
  by (cases b) (simp_all add: jsMinus_def)

lemma arrayToNumber_long: "2 \<le> length a \<Longrightarrow> arrayToNumber a = NaN"
  by (cases a; cases "tl a") (auto simp: arrayToNumber_def)

lemma updateLayerBiases_wrapped:
  assumes "2 \<le> length gs" "bs \<noteq> []"
  shows "updateLayerBiases rate [gs] bs = NaN # tl bs"
proof -
  from assms(2) obtain b rest where bs: "bs = b # rest" by (cases bs) auto
  have first: "jsMinus b (biasStep rate [gs] 0) = NaN"
    using assms(1) by (simp add: biasStep_def arrayToNumber_long jsMinus_NaN)
  have "map (\<lambda>(i, x). jsMinus x (biasStep rate [gs] i)) (enumerate (Suc 0) rest) = rest"
    by (rule map_enumerate_keep) (simp add: biasStep_def jsMinus_zero)
  with first show ?thesis by (simp add: updateLayerBiases_def bs)
qed

lemma weightGradient_all_zero:
  assumes "\<forall>row \<in> set G. \<forall>x \<in> set row. x = 0"
  shows "weightGradient G i j = 0"
proof (cases "i < length G \<and> j < length (G ! i)")
  case True
  then have "G ! i \<in> set G" "G ! i ! j \<in> set (G ! i)" by simp_all
  with assms have "G ! i ! j = 0" by blast
  with True show ?thesis by (simp add: weightGradient_def)
next
  case False
  then show ?thesis by (auto simp: weightGradient_def)
qed

lemma weightGradient_zero:
  "weightGradient (map (\<lambda>(i, row). map (\<lambda>(j, x). 0) (enumerate 0 row)) (enumerate 0 ws)) i j = 0"
  by (rule weightGradient_all_zero) auto

lemma updateLayerWeights_zero:
  "updateLayerWeights rate
     (map (\<lambda>(i, row). map (\<lambda>(j, x). 0) (enumerate 0 row)) (enumerate 0 ws)) ws' = ws'"
proof -
  have row: "map (\<lambda>(j, x). x - rate * weightGradient
       (map (\<lambda>(i, row). map (\<lambda>(j, x). 0) (enumerate 0 row)) (enumerate 0 ws)) i j)
       (enumerate 0 r) = r" for i r
    by (rule map_enumerate_keep) (simp add: weightGradient_zero)
  show ?thesis
    unfolding updateLayerWeights_def row
    by (rule map_enumerate_keep) simp
qed

lemma saveLayers_self: "self (snd (saveLayers env names w)) = self w"
proof (induction names arbitrary: w)
  case Nil
  show ?case by simp
next
  case (Cons name names)
  show ?case
    using Cons.IH
    by (simp add: createModelWeights_def storageCall_def split: prod.splits sum.splits)
qed

lemma four_layers:
  assumes "map fst xs = layerNames"
  obtains a b c d where
    "xs = [(''embedding'', a), (''attention'', b), (''feedforward'', c), (''output'', d)]"
proof -
  from assms obtain p1 p2 p3 p4 where xs: "xs = [p1, p2, p3, p4]"
    by (auto simp: layerNames_def map_eq_Cons_conv)
  with assms have "fst p1 = ''embedding''" "fst p2 = ''attention''"
    "fst p3 = ''feedforward''" "fst p4 = ''output''"
    by (simp_all add: layerNames_def)
  then have "xs = [(''embedding'', snd p1), (''attention'', snd p2),
      (''feedforward'', snd p3), (''output'', snd p4)]"
    unfolding xs by (metis prod.collapse)
  then show ?thesis by (rule that)
qed

lemma updateLayers_four:
  assumes ws: "weights ne = [(''embedding'', w1), (''attention'', w2), (''feedforward'', w3),
                 (''output'', w4)]"
    and bs: "biases ne = [(''embedding'', b1), (''attention'', b2), (''feedforward'', b3),
                 (''output'', b4)]"
    and len: "2 \<le> length b1" "2 \<le> length b2" "2 \<le> length b3" "2 \<le> length b4"
  shows "\<exists>g ne'. calculateGradients env t loss ne = Inr g
     \<and> updateLayers g (map fst (weights ne)) ne = Inr ne'
     \<and> biases ne' = [(''embedding'', NaN # tl b1), (''attention'', NaN # tl b2),
           (''feedforward'', NaN # tl b3), (''output'', NaN # tl b4)]
     \<and> (loss = 0 \<longrightarrow> weights ne' = weights ne)"
proof -
  have ne: "b1 \<noteq> []" "b2 \<noteq> []" "b3 \<noteq> []" "b4 \<noteq> []" using len by auto
  show ?thesis
    using len ne
    by (simp add: calculateGradients_def ws bs Let_def updateLayerBiases_wrapped
        noise_def updateLayerWeights_zero)
qed


text \<open>
  Claim C5 says that updateWeights subtracts learningRate times a noise gradient from
  every weight and every bias entry, and changes nothing when the loss is 0. The weights
  are updated that way. The biases are not: calculateGradients stores the bias
  gradients as one row inside an outer array, and updateWeights indexes that outer
  array with the bias index. For an engine with the four layers of initializeWeights
  whose bias vectors have at least two entries (they have 128, 128, 256 and 50257), and
  for every loss, the first bias entry of every layer becomes \<open>NaN\<close> (the learning rate
  times an array of several numbers) and every other bias entry keeps its value; with
  loss 0 the weights keep their values.
\<close>

theorem updateWeights_bias_entries:
  assumes wk: "map fst (weights (self w)) = layerNames"
    and bk: "map fst (biases (self w)) = layerNames"
    and len: "\<forall>b \<in> set (map snd (biases (self w))). 2 \<le> length b"
  shows "biases (self (snd (updateWeights env loss modelOutput gptTarget w)))
           = map (\<lambda>(name, b). (name, NaN # tl b)) (biases (self w))
       \<and> (loss = 0 \<longrightarrow>
            weights (self (snd (updateWeights env loss modelOutput gptTarget w)))
              = weights (self w))"
proof -
  from wk obtain w1 w2 w3 w4 where ws: "weights (self w) =
      [(''embedding'', w1), (''attention'', w2), (''feedforward'', w3), (''output'', w4)]"
    by (rule four_layers)
  from bk obtain b1 b2 b3 b4 where bs: "biases (self w) =
      [(''embedding'', b1), (''attention'', b2), (''feedforward'', b3), (''output'', b4)]"
    by (rule four_layers)
  from len have l: "2 \<le> length b1" "2 \<le> length b2" "2 \<le> length b3" "2 \<le> length b4"
    by (simp_all add: bs)
  from updateLayers_four [OF ws bs l, of env "clock w" loss] obtain g ne' where
    g: "calculateGradients env (clock w) loss (self w) = Inr g"
    and u: "updateLayers g (map fst (weights (self w))) (self w) = Inr ne'"
    and b': "biases ne' = [(''embedding'', NaN # tl b1), (''attention'', NaN # tl b2),
           (''feedforward'', NaN # tl b3), (''output'', NaN # tl b4)]"
    and w': "loss = 0 \<longrightarrow> weights ne' = weights (self w)"
    by blast
  have run: "updateWeights env loss modelOutput gptTarget w
      = saveWeightsToDatabase env
          (w\<lparr>clock := Suc (clock w + 2 * length (weights (self w))), self := ne'\<rparr>)"
    by (simp add: updateWeights_def prog_defs g u)
  have after: "self (snd (updateWeights env loss modelOutput gptTarget w)) = ne'"
    unfolding run saveWeightsToDatabase_def saveLayers_self by simp
  show ?thesis
    unfolding after using b' w' by (simp add: bs)
qed

theorem updateWeights_bias_entries_witness:
  "map fst (weights (self freshEngineCtx)) = layerNames
   \<and> map fst (biases (self freshEngineCtx)) = layerNames
   \<and> list_all (\<lambda>b. 2 \<le> length b) (map snd (biases (self freshEngineCtx)))
   \<and> map (\<lambda>(name, b). hd b)
        (biases (self (snd (updateWeights quietEnv 0 ''a'' ''a'' freshEngineCtx))))
       = [NaN, NaN, NaN, NaN]
   \<and> weights (self (snd (updateWeights quietEnv 0 ''a'' ''a'' freshEngineCtx)))
       = weights (self freshEngineCtx)"
proof -
  have wk: "map fst (weights (self freshEngineCtx)) = layerNames"
    by (simp add: freshEngineCtx_def freshEngine_def initialWeights_def layerNames_def)
  have bk: "map fst (biases (self freshEngineCtx)) = layerNames"
    by (simp add: freshEngineCtx_def freshEngine_def initialBiases_def layerNames_def)
  have len: "list_all (\<lambda>b. 2 \<le> length b) (map snd (biases (self freshEngineCtx)))"
    by (simp add: freshEngineCtx_def freshEngine_def initialBiases_def randomVector_def)
  have len': "\<forall>b \<in> set (map snd (biases (self freshEngineCtx))). 2 \<le> length b"
    using len by (simp only: list_all_iff)
  note inst = updateWeights_bias_entries [OF wk bk len', of quietEnv 0 "''a''" "''a''"]
  have heads: "map (\<lambda>(name, b). hd b)
        (biases (self (snd (updateWeights quietEnv 0 ''a'' ''a'' freshEngineCtx))))
       = [NaN, NaN, NaN, NaN]"
    unfolding inst [THEN conjunct1]
    by (simp add: freshEngineCtx_def freshEngine_def initialBiases_def)
  have same: "weights (self (snd (updateWeights quietEnv 0 ''a'' ''a'' freshEngineCtx)))
       = weights (self freshEngineCtx)"
    using inst [THEN conjunct2] by simp
  show ?thesis by (intro conjI wk bk len heads same)
qed


section \<open>What the training engine leaves alone\<close>

lemma trainingOnly_refl: "trainingOnly w w"
  by (simp add: trainingOnly_def)

lemma trainingOnly_trans: "trainingOnly a b \<Longrightarrow> trainingOnly b c \<Longrightarrow> trainingOnly a c"
proof -
  assume ab: "trainingOnly a b" and bc: "trainingOnly b c"
  from ab obtain n1 where n1: "dbLog b = dbLog a @ n1"
    "list_all (\<lambda>entry. fst entry \<in> set trainingCalls) n1"
    by (auto simp: trainingOnly_def)
  from bc obtain n2 where n2: "dbLog c = dbLog b @ n2"
    "list_all (\<lambda>entry. fst entry \<in> set trainingCalls) n2"
    by (auto simp: trainingOnly_def)
  have "dbLog c = dbLog a @ (n1 @ n2)"
    "list_all (\<lambda>entry. fst entry \<in> set trainingCalls) (n1 @ n2)"
    using n1 n2 by simp_all
  then have "\<exists>new. dbLog c = dbLog a @ new
      \<and> list_all (\<lambda>entry. fst entry \<in> set trainingCalls) new"
    by blast
  with ab bc show ?thesis by (simp add: trainingOnly_def)
qed

lemma trainingOnly_local:
  "storage w' = storage w \<Longrightarrow> dbLog w' = dbLog w \<Longrightarrow> trainingOnly w w'"
  by (simp add: trainingOnly_def)

lemma trainingProgI: "(\<And>w. trainingOnly w (snd (m w))) \<Longrightarrow> trainingProg m"
  by (simp add: trainingProg_def)

lemma trainingProgD: "trainingProg m \<Longrightarrow> trainingOnly w (snd (m w))"
  by (simp add: trainingProg_def)

lemma trainingProg_basic:
  "trainingProg (succeed a)" "trainingProg (throwError e)" "trainingProg getSelf"
  "trainingProg tick" "trainingProg (modify f)" "trainingProg (broadcast msg)"
  "trainingProg (fromResult r)"
  by (simp_all add: trainingProg_def prog_defs trainingOnly_def)

lemma trainingProg_andThen:
  assumes "trainingProg m" "\<And>a. trainingProg (f a)"
  shows "trainingProg (andThen m f)"
proof (rule trainingProgI)
  fix w
  show "trainingOnly w (snd (andThen m f w))"
  proof (cases "m w")
    case (Pair r w1)
    from trainingProgD [OF assms(1)] have "trainingOnly w (snd (m w))" .
    with Pair have 1: "trainingOnly w w1" by simp
    show ?thesis
    proof (cases r)
      case (Inl e)
      with Pair 1 show ?thesis by (simp add: andThen_def)
    next
      case (Inr a)
      from trainingProgD [OF assms(2)] have "trainingOnly w1 (snd (f a w1))" .
      with 1 have "trainingOnly w (snd (f a w1))" by (rule trainingOnly_trans)
      with Pair Inr show ?thesis by (simp add: andThen_def)
    qed
  qed
qed

lemma trainingProg_tryCatch:
  assumes "trainingProg m" "\<And>e. trainingProg (h e)"
  shows "trainingProg (tryCatch m h)"
proof (rule trainingProgI)
  fix w
  show "trainingOnly w (snd (tryCatch m h w))"
  proof (cases "m w")
    case (Pair r w1)
    from trainingProgD [OF assms(1)] have "trainingOnly w (snd (m w))" .
    with Pair have 1: "trainingOnly w w1" by simp
    show ?thesis
    proof (cases r)
      case (Inr a)
      with Pair 1 show ?thesis by (simp add: tryCatch_def)
    next
      case (Inl e)
      from trainingProgD [OF assms(2)] have "trainingOnly w1 (snd (h e w1))" .
      with 1 have "trainingOnly w (snd (h e w1))" by (rule trainingOnly_trans)
      with Pair Inl show ?thesis by (simp add: tryCatch_def)
    qed
  qed
qed

lemma trainingProg_storageCall:
  assumes "name \<in> set trainingCalls"
    and "\<And>d. sessions (snd (q d)) = sessions d \<and> reflections (snd (q d)) = reflections d
          \<and> memoryInsights (snd (q d)) = memoryInsights d
          \<and> generatedContent (snd (q d)) = generatedContent d"
  shows "trainingProg (storageCall env name q)"
proof -
  have "trainingOnly w (snd (storageCall env name q w))" for w
  proof -
    obtain a d where q: "q (storage w) = (a, d)" by (cases "q (storage w)")
    with assms(2) [of "storage w"] have "sessions d = sessions (storage w)"
      "reflections d = reflections (storage w)" "memoryInsights d = memoryInsights (storage w)"
      "generatedContent d = generatedContent (storage w)" by simp_all
    with assms(1) q show ?thesis
      by (simp add: storageCall_def trainingOnly_def)
  qed
  then show ?thesis by (rule trainingProgI)
qed

lemma trainingCalls_mem:
  "''createTokenVocabulary'' \<in> set trainingCalls" "''getTokenByValue'' \<in> set trainingCalls"
  "''createModelWeights'' \<in> set trainingCalls" "''createTrainingBatch'' \<in> set trainingCalls"
  "''createLearningMetrics'' \<in> set trainingCalls"
  by (simp_all add: trainingCalls_def)

lemma trainingProg_storage:
  "trainingProg (createTokenVocabulary env row1)"
  "trainingProg (getTokenByValue env sid token)"
  "trainingProg (createModelWeights env row2)"
  "trainingProg (createTrainingBatch env row3)"
  "trainingProg (createLearningMetrics env row4)"
  unfolding createTokenVocabulary_def getTokenByValue_def createModelWeights_def
    createTrainingBatch_def createLearningMetrics_def
  by (rule trainingProg_storageCall, rule trainingCalls_mem, simp)+

lemmas trainingProg_intros = trainingProg_basic trainingProg_storage trainingProg_andThen
  trainingProg_tryCatch

lemma trainingProg_tokenizeSubword: "trainingProg (tokenizeSubword env subword)"
proof (rule trainingProgI)
  fix w :: "neural ctx"
  let ?w1 = "w\<lparr>self := (self w)\<lparr>vocabulary :=
      vocab_set subword (vocab_size (vocabulary (self w))) (vocabulary (self w))\<rparr>\<rparr>"
  have 1: "trainingOnly w ?w1" by (rule trainingOnly_local) simp_all
  show "trainingOnly w (snd (tokenizeSubword env subword w))"
  proof (cases "isFalsy (vocab_get (vocabulary (self w)) subword)")
    case True
    have "trainingProg (andThen tick (\<lambda>t.
            andThen (createTokenVocabulary env
                      \<lparr>t_sessionId = n_sessionId (self ?w1), t_token = subword,
                       t_tokenId = vocab_size (vocabulary (self w)), t_frequency = 1,
                       t_embedding = generateTokenEmbedding env t\<rparr>)
              (\<lambda>row. succeed (vocab_size (vocabulary (self w))))))"
      by (intro trainingProg_intros)
    from trainingOnly_trans [OF 1 trainingProgD [OF this]] True
    show ?thesis by (simp add: tokenizeSubword_def Let_def)
  next
    case False
    have "trainingProg (andThen (getTokenByValue env (n_sessionId (self w)) subword)
                (\<lambda>existing. succeed (the (vocab_get (vocabulary (self w)) subword))))"
      by (intro trainingProg_intros)
    from trainingProgD [OF this] False
    show ?thesis by (simp add: tokenizeSubword_def Let_def)
  qed
qed

lemma trainingProg_tokenizeSubwords: "trainingProg (tokenizeSubwords env subs toks)"
proof (induction subs arbitrary: toks)
  case Nil
  show ?case by (simp add: trainingProg_def trainingOnly_refl)
next
  case (Cons s subs)
  have "tokenizeSubwords env (s # subs) toks
      = andThen (tokenizeSubword env s) (\<lambda>tokenId. tokenizeSubwords env subs (toks @ [tokenId]))"
    by (rule ext) (simp add: andThen_def split: prod.splits sum.splits)
  then show ?case
    using trainingProg_tokenizeSubword Cons.IH by (simp add: trainingProg_andThen)
qed

lemma trainingProg_tokenizeWords: "trainingProg (tokenizeWords env ws toks)"
proof (induction ws arbitrary: toks)
  case Nil
  show ?case by (simp add: trainingProg_def trainingOnly_refl)
next
  case (Cons word ws)
  show ?case
  proof (rule trainingProgI)
    fix w :: "neural ctx"
    have "tokenizeWords env (word # ws) toks w
        = andThen (tokenizeSubwords env (getSubwords (vocabulary (self w)) word) toks)
            (\<lambda>toks'. tokenizeWords env ws toks') w"
      by (simp add: andThen_def split: prod.splits sum.splits)
    moreover have "trainingProg
        (andThen (tokenizeSubwords env (getSubwords (vocabulary (self w)) word) toks)
            (\<lambda>toks'. tokenizeWords env ws toks'))"
      by (intro trainingProg_andThen trainingProg_tokenizeSubwords Cons.IH)
    ultimately show "trainingOnly w (snd (tokenizeWords env (word # ws) toks w))"
      by (simp add: trainingProgD)
  qed
qed

lemma trainingProg_tokenizeText: "trainingProg (tokenizeText env txt)"
  by (simp add: tokenizeText_def trainingProg_tokenizeWords)

lemma trainingProg_forwardPass: "trainingProg (forwardPass env tokens)"
  unfolding forwardPass_def Let_def by (intro trainingProg_intros)

lemma trainingProg_saveLayers: "trainingProg (saveLayers env names)"
proof (induction names)
  case Nil
  show ?case by (simp add: trainingProg_def trainingOnly_refl)
next
  case (Cons name names)
  show ?case
  proof (rule trainingProgI)
    fix w :: "neural ctx"
    let ?row = "\<lparr>w_sessionId = n_sessionId (self w), w_layerName = name,
              w_weights = (case map_of (weights (self w)) name of
                             Some m \<Rightarrow> m | None \<Rightarrow> []),
              w_biases = (case map_of (biases (self w)) name of
                            Some b \<Rightarrow> b | None \<Rightarrow> []),
              w_learningRate = learningRate (self w)\<rparr>"
    have "saveLayers env (name # names) w
        = andThen (createModelWeights env ?row) (\<lambda>row. saveLayers env names) w"
      by (simp add: andThen_def split: prod.splits sum.splits)
    moreover have "trainingProg (andThen (createModelWeights env ?row) (\<lambda>row. saveLayers env names))"
      by (intro trainingProg_intros Cons.IH)
    ultimately show "trainingOnly w (snd (saveLayers env (name # names) w))"
      by (simp add: trainingProgD)
  qed
qed

lemma trainingProg_saveWeights: "trainingProg (saveWeightsToDatabase env)"
  using trainingProg_saveLayers by (simp add: trainingProg_def saveWeightsToDatabase_def)

lemma trainingProg_clock: "trainingProg (\<lambda>w. (Inr (), w\<lparr>clock := f w\<rparr>))"
  by (simp add: trainingProg_def trainingOnly_def)

lemma trainingProg_updateWeights: "trainingProg (updateWeights env loss modelOutput gptTarget)"
  unfolding updateWeights_def
  by (intro trainingProg_intros trainingProg_clock trainingProg_saveWeights)

lemma trainingProg_openaiChat: "trainingProg (openaiChat env prompt)"
  unfolding openaiChat_def
  by (intro trainingProg_intros) (simp add: trainingProg_basic split: option.splits)

lemma trainingProg_trainStep: "trainingProg (trainStep env inputText)"
  unfolding trainStep_def Let_def
  by (intro trainingProg_intros trainingProg_openaiChat trainingProg_tokenizeText
      trainingProg_forwardPass trainingProg_updateWeights)

lemma trainStep_returns: "fst (trainStep env inputText w) = Inr ()"
  by (simp add: trainStep_def tryCatch_def succeed_def split: prod.splits sum.splits)


section \<open>One cycle and the loop, when no storage call of the reflection engine fails\<close>

lemma storageCall_ok:
  "\<not> dbFails env (clock w) name \<Longrightarrow>
   storageCall env name q w =
     (Inr (fst (q (storage w))),
      w\<lparr>storage := snd (q (storage w)), dbLog := dbLog w @ [(name, True)],
        clock := Suc (clock w)\<rparr>)"
  by (simp add: storageCall_def split: prod.splits)

text \<open>When only training calls can fail, the calls of the reflection engine itself do
  not.\<close>

lemma reliable_calls:
  assumes "\<forall>t name. dbFails env t name \<longrightarrow> name \<in> set trainingCalls"
  shows "\<not> dbFails env t ''getSession''"
    "\<not> dbFails env t ''createReflection''"
    "\<not> dbFails env t ''getReflectionsBySession''"
    "\<not> dbFails env t ''createMemoryInsight''"
    "\<not> dbFails env t ''getRecentMemoryInsights''"
    "\<not> dbFails env t ''createGeneratedContent''"
    "\<not> dbFails env t ''getModelWeightsBySession''"
    "\<not> dbFails env t ''getTokenVocabularyBySession''"
  using assms by (auto simp: trainingCalls_def)

lemma appended_trans:
  "appended ks is w w1 \<Longrightarrow> appended ks' is' w1 w2 \<Longrightarrow> appended (ks @ ks') (is @ is') w w2"
  by (simp add: appended_def)

lemma persistsI:
  "(\<And>w. \<exists>a w'. m w = (Inr a, w') \<and> appended ks is w w') \<Longrightarrow> persists m ks is"
  by (simp add: persists_def)

lemma persistsD: "persists m ks is \<Longrightarrow> \<exists>a w'. m w = (Inr a, w') \<and> appended ks is w w'"
  by (simp add: persists_def)

lemma persists_andThen:
  assumes "persists m ks is" "\<And>a. persists (f a) ks' is'"
  shows "persists (andThen m f) (ks @ ks') (is @ is')"
proof (rule persistsI)
  fix w
  from persistsD [OF assms(1)] obtain a w1 where 1: "m w = (Inr a, w1)" "appended ks is w w1"
    by blast
  from persistsD [OF assms(2)] obtain b w2 where 2: "f a w1 = (Inr b, w2)" "appended ks' is' w1 w2"
    by blast
  from 1 2 appended_trans [OF 1(2) 2(2)]
  show "\<exists>a w'. andThen m f w = (Inr a, w') \<and> appended (ks @ ks') (is @ is') w w'"
    by (simp add: andThen_def)
qed

lemma persists_if:
  "persists m ks is \<Longrightarrow> persists m' ks' is' \<Longrightarrow>
   persists (if b then m else m') (if b then ks else ks') (if b then is else is')"
  by simp

lemma persists_basic:
  "persists (succeed a) [] []" "persists tick [] []" "persists getSelf [] []"
  "persists (broadcast msg) [] []"
  by (simp_all add: persists_def appended_def prog_defs)

lemma persists_read:
  assumes nf: "\<And>t. \<not> dbFails env t name" and q: "\<And>d. snd (q d) = d"
  shows "persists (storageCall env name q) [] []"
  using nf q by (simp add: persists_def appended_def storageCall_ok)

lemma s_id_touch:
  "map s_id (map (\<lambda>s. if P s then s\<lparr>s_totalReflections := n\<rparr> else s) xs) = map s_id xs"
  by (induction xs) simp_all

lemma persists_createReflection:
  assumes nf: "\<forall>t name. dbFails env t name \<longrightarrow> name \<in> set trainingCalls"
  shows "persists (createReflection env sid c ty content md) [(sid, c, ty)] []"
  using reliable_calls [OF nf]
  by (simp add: persists_def appended_def createReflection_def storageCall_ok Let_def
      rowKind_def s_id_touch)

lemma persists_createMemoryInsight:
  assumes nf: "\<forall>t name. dbFails env t name \<longrightarrow> name \<in> set trainingCalls"
  shows "persists (createMemoryInsight env sid ty content cs) [] [sid]"
  using reliable_calls [OF nf]
  by (simp add: persists_def appended_def createMemoryInsight_def storageCall_ok Let_def)

lemma persists_reads:
  assumes nf: "\<forall>t name. dbFails env t name \<longrightarrow> name \<in> set trainingCalls"
  shows "persists (getReflectionsBySession env sid) [] []"
    "persists (getRecentMemoryInsights env n) [] []"
    "persists (getSession env sid) [] []"
  unfolding getReflectionsBySession_def getRecentMemoryInsights_def getSession_def
  by (rule persists_read, rule reliable_calls [OF nf], simp)+

lemma performReflectionCycle_persists:
  assumes nf: "\<forall>t name. dbFails env t name \<longrightarrow> name \<in> set trainingCalls"
  shows "persists (performReflectionCycle env sid ui c noiseLevel) (cycleKinds sid noiseLevel c)
     (cycleInsights sid c)"
proof -
  have eq: "cycleKinds sid noiseLevel c =
     [] @ [] @ [(sid, c, ''analysis'')] @ [] @ [(sid, c, ''memory_recall'')] @ []
       @ [(sid, c, if c = 1 then ''strategy'' else ''refinement'')] @ []
       @ (if 0 < noiseLevel then ([] @ [(sid, c, ''noise_injection'')]) @ [] else [])
       @ ([] @ [] @ [] @ []) @ ([] @ [])"
    by (simp add: cycleKinds_def)
  have eq': "cycleInsights sid c =
     [] @ [] @ [] @ [] @ [] @ []
       @ [] @ []
       @ (if 0 < noiseLevel then ([] @ []) @ [] else [])
       @ ([] @ [] @ [sid] @ []) @ ([] @ [])"
    by (simp add: cycleInsights_def)
  show ?thesis
    unfolding eq eq' performReflectionCycle_def createAnalysisReflection_def
      createMemoryReflection_def createStrategyReflection_def createNoiseReflection_def
      generateMemoryInsight_def updatePerformanceMetrics_def
    by (intro persists_andThen persists_if persists_basic persists_reads [OF nf]
        persists_createReflection [OF nf] persists_createMemoryInsight [OF nf])
qed


lemma callEngine_frame:
  assumes "trainingProg m"
  shows "trainingOnly w (snd (callEngine m w))"
    and "session (self (snd (callEngine m w))) = session (self w)"
    and "currentCycle (self (snd (callEngine m w))) = currentCycle (self w)"
    and "isGenerating (self (snd (callEngine m w))) = isGenerating (self w)"
    and "neuralEngine (self w) \<noteq> None \<Longrightarrow> neuralEngine (self (snd (callEngine m w))) \<noteq> None"
proof -
  show "trainingOnly w (snd (callEngine m w))"
  proof (cases "neuralEngine (self w)")
    case None
    then show ?thesis by (simp add: callEngine_def trainingOnly_refl)
  next
    case (Some ne)
    let ?c = "\<lparr>self = ne, storage = storage w, sent = sent w, dbLog = dbLog w,
                   clock = clock w\<rparr>"
    obtain r c' where mc: "m ?c = (r, c')" by (cases "m ?c")
    have "trainingOnly ?c (snd (m ?c))" using assms by (rule trainingProgD)
    then show ?thesis
      using Some mc by (simp add: callEngine_def trainingOnly_def)
  qed
qed (simp_all add: callEngine_def split: option.splits prod.splits)

lemma callEngine_result:
  "neuralEngine (self w) = Some ne \<Longrightarrow>
   fst (callEngine m w)
     = fst (m \<lparr>self = ne, storage = storage w, sent = sent w, dbLog = dbLog w, clock = clock w\<rparr>)"
  by (simp add: callEngine_def split: prod.splits)

lemma trainingOnly_loopStep:
  "trainingOnly w w' \<Longrightarrow> (neuralEngine (self w) \<noteq> None \<longrightarrow> neuralEngine (self w') \<noteq> None)
   \<Longrightarrow> loopStep [] [] w w'"
  by (simp add: trainingOnly_def loopStep_def)

lemma loopStep_trans:
  "loopStep ks is a b \<Longrightarrow> loopStep ks' is' b c \<Longrightarrow> loopStep (ks @ ks') (is @ is') a c"
  by (simp add: loopStep_def)

lemma appended_loopStep: "appended ks is w w' \<Longrightarrow> loopStep ks is w w'"
  by (simp add: appended_def loopStep_def)

lemma cycleBody_run:
  assumes nf: "\<forall>t name. dbFails env t name \<longrightarrow> name \<in> set trainingCalls"
  shows "\<exists>w'. cycleBody env sid ui c noiseLevel w = (Inr (), w')
     \<and> loopStep (cycleKinds sid noiseLevel c) (cycleInsights sid c) w w'
     \<and> currentCycle (self w') = c
     \<and> (isGenerating (self w') \<longleftrightarrow> isGenerating (self w) \<and> \<not> stopDuring env c)"
proof -
  define w1 where "w1 = w\<lparr>self := (self w)\<lparr>currentCycle := c\<rparr>\<rparr>"
  define w2 where "w2 = (if stopDuring env c
      then w1\<lparr>self := (self w1)\<lparr>isGenerating := False\<rparr>\<rparr> else w1)"
  have s2: "storage w2 = storage w" "currentCycle (self w2) = c"
    "isGenerating (self w2) \<longleftrightarrow> isGenerating (self w) \<and> \<not> stopDuring env c"
    "neuralEngine (self w2) = neuralEngine (self w)"
    by (simp_all add: w1_def w2_def)
  from persistsD [OF performReflectionCycle_persists [OF nf]]
  obtain u w3 where prc: "performReflectionCycle env sid ui c noiseLevel w2 = (Inr u, w3)"
    and app: "appended (cycleKinds sid noiseLevel c) (cycleInsights sid c) w2 w3"
    by blast
  from app have s3: "self w3 = self w2" by (simp add: appended_def)
  have l3: "loopStep (cycleKinds sid noiseLevel c) (cycleInsights sid c) w w3"
    using app s2 s3 by (simp add: appended_def loopStep_def)
  have start: "cycleBody env sid ui c noiseLevel w
      = (if neuralEngine (self w3) \<noteq> None then callEngine (trainStep env ui) w3
         else (Inr (), w3))"
  proof -
    have m1: "modify (\<lambda>this. this\<lparr>currentCycle := c\<rparr>) w = (Inr (), w1)"
      by (simp add: modify_def w1_def)
    have m2: "stopRequests env c w1 = (Inr (), w2)"
      by (simp add: stopRequests_def stop_def modify_def succeed_def w2_def)
    show ?thesis
      by (simp add: cycleBody_def andThen_def m1 m2 prc getSelf_def succeed_def)
  qed
  show ?thesis
  proof (cases "neuralEngine (self w3)")
    case None
    with start l3 s2 s3 show ?thesis by simp
  next
    case (Some ne)
    obtain r w4 where ce: "callEngine (trainStep env ui) w3 = (r, w4)"
      by (cases "callEngine (trainStep env ui) w3")
    have r: "r = Inr ()"
      using callEngine_result [OF Some, of "trainStep env ui"] ce
      by (simp add: trainStep_returns)
    note fr = callEngine_frame [OF trainingProg_trainStep [of env ui], of w3]
    have "loopStep [] [] w3 w4"
      using fr(1) fr(5) ce by (intro trainingOnly_loopStep) simp_all
    from loopStep_trans [OF l3 this]
    have l4: "loopStep (cycleKinds sid noiseLevel c) (cycleInsights sid c) w w4" by simp
    have "currentCycle (self w4) = c"
      "isGenerating (self w4) \<longleftrightarrow> isGenerating (self w) \<and> \<not> stopDuring env c"
      using fr(3,4) ce s2 s3 by simp_all
    with start Some ce r l4 show ?thesis by simp
  qed
qed

lemma cycleLoop_exit:
  "\<not> (c \<le> N \<and> isGenerating (self w)) \<Longrightarrow> cycleLoop env sid ui N noiseLevel c w = (Inr (), w)"
  by (subst cycleLoop.simps) auto

lemma cycleLoop_step:
  "c \<le> N \<Longrightarrow> isGenerating (self w) \<Longrightarrow>
   cycleBody env sid ui c noiseLevel w = (Inr (), w') \<Longrightarrow>
   cycleLoop env sid ui N noiseLevel c w = cycleLoop env sid ui N noiseLevel (c + 1) w'"
  by (subst cycleLoop.simps) simp

lemma loopStep_refl: "loopStep [] [] w w"
  by (simp add: loopStep_def)

lemma cycleLoop_run:
  assumes nf: "\<forall>t name. dbFails env t name \<longrightarrow> name \<in> set trainingCalls"
  shows "c \<le> K \<Longrightarrow> K \<le> N \<Longrightarrow> isGenerating (self w) \<Longrightarrow>
     (\<forall>j. c \<le> j \<and> j < K \<longrightarrow> \<not> stopDuring env j) \<Longrightarrow>
     (K < N \<longrightarrow> stopDuring env K) \<Longrightarrow>
     \<exists>w'. cycleLoop env sid ui N noiseLevel c w = (Inr (), w')
       \<and> loopStep (concat (map (cycleKinds sid noiseLevel) [c..K]))
            (concat (map (cycleInsights sid) [c..K])) w w'
       \<and> currentCycle (self w') = K
       \<and> (isGenerating (self w') \<longleftrightarrow> \<not> stopDuring env K)"
proof (induction "nat (K - c)" arbitrary: c w)
  case 0
  then have cK: "c = K" by simp
  from cycleBody_run [OF nf, of sid ui c noiseLevel w] obtain w1 where
    body: "cycleBody env sid ui c noiseLevel w = (Inr (), w1)"
    and l1: "loopStep (cycleKinds sid noiseLevel c) (cycleInsights sid c) w w1"
    and c1: "currentCycle (self w1) = c"
    and g1: "isGenerating (self w1) \<longleftrightarrow> isGenerating (self w) \<and> \<not> stopDuring env c"
    by blast
  have "\<not> (c + 1 \<le> N \<and> isGenerating (self w1))"
    using "0.prems"(5) g1 cK by auto
  then have "cycleLoop env sid ui N noiseLevel (c + 1) w1 = (Inr (), w1)"
    by (rule cycleLoop_exit)
  with cycleLoop_step [OF _ "0.prems"(3) body, of N] "0.prems"(2) cK
  have "cycleLoop env sid ui N noiseLevel c w = (Inr (), w1)" by simp
  with l1 c1 cK g1 "0.prems"(3) show ?case by simp
next
  case (Suc n)
  then have lt: "c < K" by simp
  from cycleBody_run [OF nf, of sid ui c noiseLevel w] obtain w1 where
    body: "cycleBody env sid ui c noiseLevel w = (Inr (), w1)"
    and l1: "loopStep (cycleKinds sid noiseLevel c) (cycleInsights sid c) w w1"
    and g1: "isGenerating (self w1) \<longleftrightarrow> isGenerating (self w) \<and> \<not> stopDuring env c"
    by blast
  have gen: "isGenerating (self w1)" using g1 Suc.prems(3,4) lt by simp
  have n: "n = nat (K - (c + 1))" using Suc.hyps(2) by simp
  have stops: "\<forall>j. c + 1 \<le> j \<and> j < K \<longrightarrow> \<not> stopDuring env j" using Suc.prems(4) by simp
  from Suc.hyps(1) [OF n _ Suc.prems(2) gen stops Suc.prems(5)] lt obtain w' where
    rest: "cycleLoop env sid ui N noiseLevel (c + 1) w1 = (Inr (), w')"
    and l2: "loopStep (concat (map (cycleKinds sid noiseLevel) [c + 1..K]))
              (concat (map (cycleInsights sid) [c + 1..K])) w1 w'"
    and c2: "currentCycle (self w') = K"
    and g2: "isGenerating (self w') \<longleftrightarrow> \<not> stopDuring env K"
    by auto
  have "c \<le> N" using lt Suc.prems(2) by simp
  from cycleLoop_step [OF this Suc.prems(3) body] rest
  have run: "cycleLoop env sid ui N noiseLevel c w = (Inr (), w')" by simp
  have "[c..K] = c # [c + 1..K]" using lt by (simp add: upto_rec1)
  with loopStep_trans [OF l1 l2]
  have "loopStep (concat (map (cycleKinds sid noiseLevel) [c..K]))
          (concat (map (cycleInsights sid) [c..K])) w w'" by simp
  with run c2 g2 show ?case by simp
qed


section \<open>Finalization and the start of the loop, when no storage call of the reflection engine fails\<close>

lemma streamWords_run:
  "\<exists>n w'. streamWords env ws content k w = (Inr n, w')
     \<and> storage w' = storage w \<and> self w' = self w \<and> dbLog w' = dbLog w"
proof (induction ws arbitrary: content k w)
  case Nil
  show ?case by simp
next
  case (Cons word ws)
  let ?content = "content @ (if 0 < k then '' '' else '''') @ word"
  let ?w = "w\<lparr>sent := sent w @ [GenerationMessage ?content False (Suc k)
                (randomScore env (clock w) 0 85 15) (randomScore env (clock w) 1 80 20)],
             clock := Suc (clock w)\<rparr>"
  from Cons.IH [of ?content "Suc k" ?w] obtain n w' where
    "streamWords env ws ?content (Suc k) ?w = (Inr n, w')"
    "storage w' = storage ?w" "self w' = self ?w" "dbLog w' = dbLog ?w"
    by blast
  then show ?case by (simp add: Let_def)
qed

lemma contentStep_run:
  "\<exists>content w'. engineOrTemplateContent env ui rs w = (Inr content, w')
   \<and> trainingOnly w w'
   \<and> currentCycle (self w') = currentCycle (self w)
   \<and> isGenerating (self w') = isGenerating (self w)"
proof (cases "neuralEngine (self w) = None")
  case True
  then show ?thesis
    by (simp add: engineOrTemplateContent_def andThen_def getSelf_def succeed_def
        trainingOnly_refl)
next
  case False
  obtain r1 w1 where c1: "callEngine (tokenizeText env ui) w = (r1, w1)"
    by (cases "callEngine (tokenizeText env ui) w")
  note f1 = callEngine_frame [OF trainingProg_tokenizeText [of env ui], of w]
  have t1: "trainingOnly w w1" and k1: "currentCycle (self w1) = currentCycle (self w)"
    "isGenerating (self w1) = isGenerating (self w)"
    using f1 c1 by simp_all
  show ?thesis
  proof (cases r1)
    case (Inl e)
    with c1 False t1 k1 show ?thesis
      by (simp add: engineOrTemplateContent_def getSelf_def tryCatch_def andThen_def
          succeed_def)
  next
    case (Inr tokens)
    obtain r2 w2 where c2: "callEngine (forwardPass env tokens) w1 = (r2, w2)"
      by (cases "callEngine (forwardPass env tokens) w1")
    note f2 = callEngine_frame [OF trainingProg_forwardPass [of env tokens], of w1]
    have t2: "trainingOnly w w2"
      using trainingOnly_trans [OF t1, of w2] f2(1) c2 by simp
    have k2: "currentCycle (self w2) = currentCycle (self w)"
      "isGenerating (self w2) = isGenerating (self w)"
      using f2 c2 k1 by simp_all
    from c1 c2 Inr False t2 k2 show ?thesis
      by (cases r2)
         (simp_all add: engineOrTemplateContent_def getSelf_def tryCatch_def andThen_def
            succeed_def)
  qed
qed


lemma andThen_Inr: "m w = (Inr a, w') \<Longrightarrow> andThen m f w = f a w'"
  by (simp add: andThen_def)

lemma read_run:
  assumes nf: "\<And>t. \<not> dbFails env t name" and q: "\<And>d. snd (q d) = d"
  shows "\<exists>a w'. storageCall env name q w = (Inr a, w')
     \<and> storage w' = storage w \<and> self w' = self w"
  using nf q by (simp add: storageCall_ok)

lemma finalize_tail:
  assumes nf: "\<forall>t name. dbFails env t name \<longrightarrow> name \<in> set trainingCalls"
  shows "\<exists>row w'.
     andThen tick (\<lambda>t.
     andThen (broadcast (GenerationMessage content True n
                          (randomScore env t 0 90 10) (randomScore env t 1 85 15))) (\<lambda>u.
     andThen tick (\<lambda>t'.
     andThen (createGeneratedContent env sid rid content True
               (randomScore env t' 0 90 10) (randomScore env t' 1 85 15)
               (randomScore env t' 2 80 20)) (\<lambda>row.
     succeed ())))) w = (Inr (), w')
   \<and> generatedContent (storage w') = generatedContent (storage w) @ [row]
   \<and> g_isComplete row \<and> g_sessionId row = sid
   \<and> reflections (storage w') = reflections (storage w)
   \<and> memoryInsights (storage w') = memoryInsights (storage w)
   \<and> sessions (storage w') = sessions (storage w)
   \<and> self w' = self w"
  using reliable_calls [OF nf] by (simp add: prog_defs createGeneratedContent_def storageCall_ok Let_def)

lemma generateFinalContent_run:
  assumes nf: "\<forall>t name. dbFails env t name \<longrightarrow> name \<in> set trainingCalls"
  shows "\<exists>row w'. generateFinalContent env sid ui w = (Inr (), w')
     \<and> generatedContent (storage w') = generatedContent (storage w) @ [row]
     \<and> g_isComplete row \<and> g_sessionId row = sid
     \<and> reflections (storage w') = reflections (storage w)
     \<and> memoryInsights (storage w') = memoryInsights (storage w)
     \<and> sessions (storage w') = sessions (storage w)
     \<and> currentCycle (self w') = currentCycle (self w)
     \<and> isGenerating (self w') = isGenerating (self w)"
proof -
  from read_run [OF reliable_calls(3) [OF nf],
      of "\<lambda>d. (filter (\<lambda>r. r_sessionId r = sid) (reflections d), d)" w]
  obtain rs wa where a: "getReflectionsBySession env sid w = (Inr rs, wa)"
    and sa: "storage wa = storage w" "self wa = self w"
    by (auto simp: getReflectionsBySession_def)
  from read_run [OF reliable_calls(1) [OF nf],
      of "\<lambda>d. (find (\<lambda>s. s_id s = sid) (sessions d), d)" wa]
  obtain found wb where b: "getSession env sid wa = (Inr found, wb)"
    and sb: "storage wb = storage wa" "self wb = self wa"
    by (auto simp: getSession_def)
  from contentStep_run [of env ui rs wb] obtain content wc where
    d: "engineOrTemplateContent env ui rs wb = (Inr content, wc)"
    and tc: "trainingOnly wb wc"
    and kc: "currentCycle (self wc) = currentCycle (self wb)"
      "isGenerating (self wc) = isGenerating (self wb)"
    by blast
  from streamWords_run [of env "splitSpace content" "[]" 0 wc] obtain n wd where
    e: "streamWords env (splitSpace content) [] 0 wc = (Inr n, wd)"
    and sd: "storage wd = storage wc" "self wd = self wc"
    by blast
  from finalize_tail [OF nf, of content n sid "if rs = [] then 0 else r_id (last rs)" wd]
  obtain row w' where
    f: "andThen tick (\<lambda>t.
     andThen (broadcast (GenerationMessage content True n
                          (randomScore env t 0 90 10) (randomScore env t 1 85 15))) (\<lambda>u.
     andThen tick (\<lambda>t'.
     andThen (createGeneratedContent env sid (if rs = [] then 0 else r_id (last rs))
               content True
               (randomScore env t' 0 90 10) (randomScore env t' 1 85 15)
               (randomScore env t' 2 80 20)) (\<lambda>row.
     succeed ())))) wd = (Inr (), w')"
    and sf: "generatedContent (storage w') = generatedContent (storage wd) @ [row]"
      "g_isComplete row" "g_sessionId row = sid"
      "reflections (storage w') = reflections (storage wd)"
      "memoryInsights (storage w') = memoryInsights (storage wd)"
      "sessions (storage w') = sessions (storage wd)"
      "self w' = self wd"
    by blast
  have run: "generateFinalContent env sid ui w = (Inr (), w')"
    by (simp only: generateFinalContent_def
        andThen_Inr [where m = "getReflectionsBySession env sid" and w = w, OF a]
        andThen_Inr [where m = "getSession env sid" and w = wa, OF b]
        andThen_Inr [where m = "engineOrTemplateContent env ui rs" and w = wb, OF d]
        andThen_Inr [where m = "streamWords env (splitSpace content) [] 0" and w = wc, OF e]
        f)
  from tc have tables: "generatedContent (storage wc) = generatedContent (storage wb)"
    "reflections (storage wc) = reflections (storage wb)"
    "memoryInsights (storage wc) = memoryInsights (storage wb)"
    "sessions (storage wc) = sessions (storage wb)"
    by (simp_all add: trainingOnly_def)
  show ?thesis
    using run sf sd tables sb sa kc by auto
qed

lemma find_session:
  "sessionExists sid w \<Longrightarrow> find (\<lambda>s. s_id s = sid) (sessions (storage w)) \<noteq> None"
  by (auto simp: sessionExists_def find_None_iff)

lemma beginLoop_run:
  assumes nf: "\<forall>t name. dbFails env t name \<longrightarrow> name \<in> set trainingCalls" and ex: "sessionExists sid w"
  shows "\<exists>w'. beginLoop env sid w = (Inr (), w')
     \<and> storage w' = storage w
     \<and> currentCycle (self w') = 0 \<and> isGenerating (self w')
     \<and> neuralEngine (self w') \<noteq> None"
  using reliable_calls [OF nf] find_session [OF ex]
  by (simp add: beginLoop_def prog_defs getSession_def storageCall_ok newNeuralEngine_def
      callEngine_def loadWeights_def getModelWeightsBySession_def
      getTokenVocabularyBySession_def)

section \<open>A whole run of startReflectionLoop\<close>

lemma startReflectionLoop_run:
  assumes nf: "\<forall>t name. dbFails env t name \<longrightarrow> name \<in> set trainingCalls"
    and ex: "sessionExists sid w"
    and K0: "0 \<le> K" and KN: "K \<le> N"
    and nostop: "\<forall>j. 0 \<le> j \<and> j < K \<longrightarrow> \<not> stopDuring env j"
    and stopK: "K < N \<longrightarrow> stopDuring env K"
  shows "\<exists>row w'. startReflectionLoop env sid ui N noiseLevel w = (Inr (), w')
     \<and> map rowKind (reflections (storage w'))
         = map rowKind (reflections (storage w))
           @ (sid, 0, ''user_input'') # concat (map (cycleKinds sid noiseLevel) [1..K])
     \<and> map i_sessionId (memoryInsights (storage w'))
         = map i_sessionId (memoryInsights (storage w))
           @ concat (map (cycleInsights sid) [1..K])
     \<and> generatedContent (storage w') = generatedContent (storage w) @ [row]
     \<and> g_isComplete row \<and> g_sessionId row = sid
     \<and> currentCycle (self w') = K
     \<and> (isGenerating (self w') \<longleftrightarrow> \<not> stopDuring env K)"
proof -
  from beginLoop_run [OF nf ex] obtain w1 where
    b: "beginLoop env sid w = (Inr (), w1)"
    and s1: "storage w1 = storage w" "currentCycle (self w1) = 0" "isGenerating (self w1)"
      "neuralEngine (self w1) \<noteq> None"
    by blast
  let ?md = "[(''noiseLevel'', noiseLevel), (''reflectionCycles'', N)]"
  from persistsD [OF persists_createReflection [OF nf], of sid 0 "''user_input''" ui ?md w1]
  obtain row0 w2 where
    c: "createReflection env sid 0 ''user_input'' ui ?md w1 = (Inr row0, w2)"
    and a2: "appended [(sid, 0, ''user_input'')] [] w1 w2"
    by blast
  define w3 where "w3 = (if stopDuring env 0
      then w2\<lparr>self := (self w2)\<lparr>isGenerating := False\<rparr>\<rparr> else w2)"
  have st: "stopRequests env 0 w2 = (Inr (), w3)"
    by (simp add: stopRequests_def stop_def modify_def succeed_def w3_def)
  have l3: "loopStep [(sid, 0, ''user_input'')] [] w w3"
    using a2 s1 by (simp add: appended_def loopStep_def w3_def)
  have f3: "currentCycle (self w3) = 0" "isGenerating (self w3) \<longleftrightarrow> \<not> stopDuring env 0"
    using a2 s1 by (simp_all add: appended_def w3_def)
  have "\<exists>w4. cycleLoop env sid ui N noiseLevel 1 w3 = (Inr (), w4)
      \<and> loopStep (concat (map (cycleKinds sid noiseLevel) [1..K]))
           (concat (map (cycleInsights sid) [1..K])) w3 w4
      \<and> currentCycle (self w4) = K
      \<and> (isGenerating (self w4) \<longleftrightarrow> \<not> stopDuring env K)"
  proof (cases "K = 0")
    case True
    have "\<not> (1 \<le> N \<and> isGenerating (self w3))"
      using True stopK f3 by auto
    from cycleLoop_exit [OF this] True f3 show ?thesis
      by (simp add: loopStep_refl)
  next
    case False
    with K0 have K1: "1 \<le> K" by simp
    have gen: "isGenerating (self w3)" using f3 nostop K1 by simp
    have stops: "\<forall>j. 1 \<le> j \<and> j < K \<longrightarrow> \<not> stopDuring env j" using nostop by simp
    from cycleLoop_run [OF nf K1 KN gen stops stopK] show ?thesis .
  qed
  then obtain w4 where
    l: "cycleLoop env sid ui N noiseLevel 1 w3 = (Inr (), w4)"
    and l4: "loopStep (concat (map (cycleKinds sid noiseLevel) [1..K]))
              (concat (map (cycleInsights sid) [1..K])) w3 w4"
    and c4: "currentCycle (self w4) = K"
    and g4: "isGenerating (self w4) \<longleftrightarrow> \<not> stopDuring env K"
    by blast
  from generateFinalContent_run [OF nf, of sid ui w4] obtain row w5 where
    g: "generateFinalContent env sid ui w4 = (Inr (), w5)"
    and s5: "generatedContent (storage w5) = generatedContent (storage w4) @ [row]"
      "g_isComplete row" "g_sessionId row = sid"
      "reflections (storage w5) = reflections (storage w4)"
      "memoryInsights (storage w5) = memoryInsights (storage w4)"
      "currentCycle (self w5) = currentCycle (self w4)"
      "isGenerating (self w5) = isGenerating (self w4)"
    by blast
  have run: "startReflectionLoop env sid ui N noiseLevel w = (Inr (), w5)"
    by (simp add: startReflectionLoop_def andThen_def tryCatch_def b c st l g)
  from loopStep_trans [OF l3 l4]
  have "loopStep ((sid, 0, ''user_input'') # concat (map (cycleKinds sid noiseLevel) [1..K]))
          (concat (map (cycleInsights sid) [1..K])) w w4"
    by simp
  with run s5 c4 g4 show ?thesis by (auto simp: loopStep_def)
qed

section \<open>Facts about the concrete inputs\<close>

lemma upto_1_2: "[1..2::int] = [1, 2]"
  by (simp add: upto_rec1)

lemma quiet_reliable: "onlyTrainingCallsFail quietEnv"
  by (simp add: onlyTrainingCallsFail_def quietEnv_def)

lemma idle_session: "sessionExists 1 idleCtx" "sessionExists 1 busyCtx"
  by (simp_all add: sessionExists_def idleCtx_def busyCtx_def demoSession_def emptyDb_def)

lemma stopEnv_facts:
  "onlyTrainingCallsFail stopEnv" "firstStopDuring stopEnv 2"
  by (simp_all add: onlyTrainingCallsFail_def firstStopDuring_def stopEnv_def quietEnv_def)



section \<open>The reflections a run persists\<close>

text \<open>
  Claim C1. A run of startReflectionLoop with reflectionCycles = N, where N is at least 0,
  on an existing session, that is never stopped and in which no storage call of the
  reflection engine fails (training calls may fail), returns normally, and the reflections
  it has persisted are, in this order: one of cycle 0 and kind user_input, then for each
  cycle c = 1, ..., N one analysis, one memory_recall, one strategy (c = 1) or refinement
  (c > 1), and one noise_injection exactly when noiseLevel > 0 (this group is
  \<open>cycleKinds\<close>). Nothing else is appended to the reflections.
\<close>

theorem startReflectionLoop_reflections:
  assumes "onlyTrainingCallsFail env"
    and "sessionExists sessionId w"
    and "0 \<le> reflectionCycles"
    and "\<forall>c. \<not> stopDuring env c"
  shows "\<exists>w'. startReflectionLoop env sessionId userInput reflectionCycles noiseLevel w
               = (Inr (), w')
     \<and> map rowKind (reflections (storage w'))
         = map rowKind (reflections (storage w))
           @ (sessionId, 0, ''user_input'')
             # concat (map (cycleKinds sessionId noiseLevel) [1..reflectionCycles])"
proof -
  from assms(1) have nf: "\<forall>t name. dbFails env t name \<longrightarrow> name \<in> set trainingCalls"
    by (simp add: onlyTrainingCallsFail_def)
  from startReflectionLoop_run [OF nf assms(2) assms(3), of reflectionCycles userInput noiseLevel]
    assms(4)
  show ?thesis by auto
qed

theorem startReflectionLoop_reflections_witness:
  "onlyTrainingCallsFail quietEnv \<and> sessionExists 1 idleCtx
   \<and> (\<forall>c. \<not> stopDuring quietEnv c)
   \<and> (\<exists>w'. startReflectionLoop quietEnv 1 ''hi'' 2 15 idleCtx = (Inr (), w')
        \<and> map rowKind (reflections (storage w'))
            = [(1, 0, ''user_input''),
               (1, 1, ''analysis''), (1, 1, ''memory_recall''), (1, 1, ''strategy''),
               (1, 1, ''noise_injection''),
               (1, 2, ''analysis''), (1, 2, ''memory_recall''), (1, 2, ''refinement''),
               (1, 2, ''noise_injection'')])"
proof -
  have ns: "\<forall>c. \<not> stopDuring quietEnv c" by (simp add: quietEnv_def)
  have start: "map rowKind (reflections (storage idleCtx)) = []"
    by (simp add: idleCtx_def emptyDb_def)
  from startReflectionLoop_reflections [OF quiet_reliable idle_session(1) _ ns,
      of 2 "''hi''" 15]
  obtain w' where run: "startReflectionLoop quietEnv 1 ''hi'' 2 15 idleCtx = (Inr (), w')"
    and rows: "map rowKind (reflections (storage w'))
         = map rowKind (reflections (storage idleCtx))
           @ (1, 0, ''user_input'') # concat (map (cycleKinds 1 15) [1..2])"
    by auto
  from rows have rows': "map rowKind (reflections (storage w'))
            = [(1, 0, ''user_input''),
               (1, 1, ''analysis''), (1, 1, ''memory_recall''), (1, 1, ''strategy''),
               (1, 1, ''noise_injection''),
               (1, 2, ''analysis''), (1, 2, ''memory_recall''), (1, 2, ''refinement''),
               (1, 2, ''noise_injection'')]"
    by (simp add: start upto_1_2 cycleKinds_def)
  show ?thesis
    by (intro conjI exI [of _ w']) (rule quiet_reliable idle_session(1) ns run rows')+
qed

section \<open>The start of a loop\<close>

lemma engine_overwritten:
  "(e :: reflection_engine)\<lparr>session := a, neuralEngine := b, currentCycle := c,
      isGenerating := d\<rparr>
   = \<lparr>session = a, currentCycle = c, isGenerating = d, neuralEngine = b\<rparr>"
  by (cases e) simp

lemma loaded_engine:
  "n_sessionId (foldl restoreWeights (foldl restoreToken ne tokens) ws) = n_sessionId ne"
  "currentEpoch (foldl restoreWeights (foldl restoreToken ne tokens) ws) = currentEpoch ne"
proof -
  have t: "n_sessionId (foldl restoreToken ne tokens) = n_sessionId ne
      \<and> currentEpoch (foldl restoreToken ne tokens) = currentEpoch ne" for ne
    by (induction tokens arbitrary: ne) (simp_all add: restoreToken_def)
  have w: "n_sessionId (foldl restoreWeights ne ws) = n_sessionId ne
      \<and> currentEpoch (foldl restoreWeights ne ws) = currentEpoch ne" for ne
    by (induction ws arbitrary: ne) (simp_all add: restoreWeights_def Let_def)
  show "n_sessionId (foldl restoreWeights (foldl restoreToken ne tokens) ws) = n_sessionId ne"
    "currentEpoch (foldl restoreWeights (foldl restoreToken ne tokens) ws) = currentEpoch ne"
    using t w by simp_all
qed

lemmas beginLoop_defs = beginLoop_def prog_defs getSession_def newNeuralEngine_def
  callEngine_def loadWeights_def getModelWeightsBySession_def getTokenVocabularyBySession_def





lemma beginLoop_state:
  assumes "fst (beginLoop env sid w) = Inr ()"
  shows "\<exists>s ne. self (snd (beginLoop env sid w))
            = \<lparr>session = Some s, currentCycle = 0, isGenerating = True,
               neuralEngine = Some ne\<rparr>
         \<and> s_id s = sid \<and> s \<in> set (sessions (storage w))
         \<and> n_sessionId ne = sid \<and> currentEpoch ne = 0
         \<and> storage (snd (beginLoop env sid w)) = storage w"
proof (cases "find (\<lambda>s. s_id s = sid) (sessions (storage w))")
  case None
  with assms show ?thesis
    by (auto simp: beginLoop_defs split: prod.splits if_splits)
next
  case (Some s)
  then have s: "s_id s = sid" "s \<in> set (sessions (storage w))"
    by (auto simp: find_Some_iff)
  from assms Some s show ?thesis
    by (auto simp: beginLoop_defs engine_overwritten loaded_engine
        split: prod.splits if_splits)
qed





section \<open>Starting a loop while one is active\<close>




section \<open>Which storage failures a run survives\<close>


lemma settled_same: "dbLog w' = dbLog w \<Longrightarrow> settled L w' = settled L w"
  by (simp add: settled_def)

lemma aborted_other: "e \<noteq> PersistenceFailure \<Longrightarrow> aborted L e w = settled L w"
  by (simp add: aborted_def)

































section \<open>Failing storage calls\<close>




section \<open>A stopped run and the run with complete cycles\<close>

lemma setGenerating_fields:
  "self (setGenerating b w) = (self w)\<lparr>isGenerating := b\<rparr>"
  "storage (setGenerating b w) = storage w" "sent (setGenerating b w) = sent w"
  "dbLog (setGenerating b w) = dbLog w" "clock (setGenerating b w) = clock w"
  by (simp_all add: setGenerating_def)

lemma setGenerating_twice: "setGenerating b (setGenerating b' w) = setGenerating b w"
  by (simp add: setGenerating_def)

lemma setGenerating_same: "setGenerating (isGenerating (self w)) w = w"
  by (simp add: setGenerating_def)

lemma flagBlindI:
  "(\<And>w b. m (setGenerating b w) = (fst (m w), setGenerating b (snd (m w)))) \<Longrightarrow> flagBlind m"
  by (simp add: flagBlind_def)

lemma flagBlindD:
  "flagBlind m \<Longrightarrow> m (setGenerating b w) = (fst (m w), setGenerating b (snd (m w)))"
  by (simp add: flagBlind_def)

lemma flagBlind_basic:
  "flagBlind (succeed a)" "flagBlind tick" "flagBlind (broadcast msg)"
  "flagBlind (throwError e)" "flagBlind (modify (\<lambda>this. this\<lparr>currentCycle := c\<rparr>))"
  by (simp_all add: flagBlind_def prog_defs setGenerating_def)

lemma flagBlind_storageCall: "flagBlind (storageCall env name q)"
  by (simp add: flagBlind_def storageCall_def setGenerating_def split: prod.splits)

lemma flagBlind_storage:
  "flagBlind (getSession env sid)"
  "flagBlind (createReflection env sid c ty content md)"
  "flagBlind (getReflectionsBySession env sid)"
  "flagBlind (createMemoryInsight env sid ity text cs)"
  "flagBlind (getRecentMemoryInsights env n)"
  "flagBlind (createGeneratedContent env sid rid content done q1 q2 q3)"
  unfolding getSession_def createReflection_def getReflectionsBySession_def
    createMemoryInsight_def getRecentMemoryInsights_def createGeneratedContent_def
  by (rule flagBlind_storageCall)+

lemma flagBlind_andThen:
  assumes "flagBlind m" "\<And>a. flagBlind (f a)"
  shows "flagBlind (andThen m f)"
proof (rule flagBlindI)
  fix w b
  obtain r w1 where mw: "m w = (r, w1)" by (cases "m w")
  with flagBlindD [OF assms(1), of b w] have mb: "m (setGenerating b w) = (r, setGenerating b w1)"
    by simp
  show "andThen m f (setGenerating b w)
      = (fst (andThen m f w), setGenerating b (snd (andThen m f w)))"
  proof (cases r)
    case (Inl e)
    with mw mb show ?thesis by (simp add: andThen_def)
  next
    case (Inr a)
    with mw mb flagBlindD [OF assms(2), of a b w1] show ?thesis by (simp add: andThen_def)
  qed
qed

lemma flagBlind_tryCatch:
  assumes "flagBlind m" "\<And>e. flagBlind (h e)"
  shows "flagBlind (tryCatch m h)"
proof (rule flagBlindI)
  fix w b
  obtain r w1 where mw: "m w = (r, w1)" by (cases "m w")
  with flagBlindD [OF assms(1), of b w] have mb: "m (setGenerating b w) = (r, setGenerating b w1)"
    by simp
  show "tryCatch m h (setGenerating b w)
      = (fst (tryCatch m h w), setGenerating b (snd (tryCatch m h w)))"
  proof (cases r)
    case (Inr a)
    with mw mb show ?thesis by (simp add: tryCatch_def)
  next
    case (Inl e)
    with mw mb flagBlindD [OF assms(2), of e b w1] show ?thesis by (simp add: tryCatch_def)
  qed
qed

lemma flagBlind_if: "flagBlind m \<Longrightarrow> flagBlind m' \<Longrightarrow> flagBlind (if c then m else m')"
  by simp

lemma flagBlind_getSelf:
  assumes "\<And>this b. f (this\<lparr>isGenerating := b\<rparr>) = f this" "\<And>this. flagBlind (f this)"
  shows "flagBlind (andThen getSelf f)"
proof (rule flagBlindI)
  fix w b
  have "andThen getSelf f (setGenerating b w) = f (self w) (setGenerating b w)"
    by (simp add: andThen_def getSelf_def setGenerating_fields assms(1))
  also have "\<dots> = (fst (f (self w) w), setGenerating b (snd (f (self w) w)))"
    by (rule flagBlindD [OF assms(2)])
  finally show "andThen getSelf f (setGenerating b w)
      = (fst (andThen getSelf f w), setGenerating b (snd (andThen getSelf f w)))"
    by (simp add: andThen_def getSelf_def)
qed

lemma flagBlind_callEngine: "flagBlind (callEngine m)"
  by (simp add: flagBlind_def callEngine_def setGenerating_def split: option.splits prod.splits)

lemma setGenerating_push:
  "(setGenerating b w)\<lparr>sent := s, clock := t\<rparr> = setGenerating b (w\<lparr>sent := s, clock := t\<rparr>)"
  by (simp add: setGenerating_def)

lemma flagBlind_streamWords: "flagBlind (streamWords env ws content k)"
proof (rule flagBlindI)
  fix w b
  show "streamWords env ws content k (setGenerating b w)
      = (fst (streamWords env ws content k w), setGenerating b (snd (streamWords env ws content k w)))"
  proof (induction ws arbitrary: content k w)
    case Nil
    show ?case by simp
  next
    case (Cons word ws)
    show ?case
      by (simp add: Let_def setGenerating_fields setGenerating_push Cons.IH)
  qed
qed

lemmas flagBlind_intros = flagBlind_andThen flagBlind_tryCatch flagBlind_if flagBlind_basic
  flagBlind_storage flagBlind_callEngine flagBlind_streamWords

lemma flagBlind_generateMemoryInsight: "flagBlind (generateMemoryInsight env sid)"
  unfolding generateMemoryInsight_def
  apply (rule flagBlind_andThen)
   apply (rule flagBlind_basic)
  apply (rule flagBlind_getSelf)
   apply simp
  apply (intro flagBlind_intros)
  done

lemma flagBlind_performReflectionCycle:
  "flagBlind (performReflectionCycle env sid ui c noiseLevel)"
  unfolding performReflectionCycle_def createAnalysisReflection_def
    createMemoryReflection_def createStrategyReflection_def createNoiseReflection_def
    updatePerformanceMetrics_def
  by (intro flagBlind_intros flagBlind_generateMemoryInsight)

lemma flagBlind_training:
  "flagBlind (andThen getSelf (\<lambda>this.
     if neuralEngine this \<noteq> None then callEngine (trainStep env ui) else succeed ()))"
  by (rule flagBlind_getSelf, simp, intro flagBlind_intros)

lemma flagBlind_content: "flagBlind (engineOrTemplateContent env ui rs)"
  unfolding engineOrTemplateContent_def
  by (rule flagBlind_getSelf, simp, intro flagBlind_intros)

lemma flagBlind_generateFinalContent: "flagBlind (generateFinalContent env sid ui)"
  unfolding generateFinalContent_def
  by (intro flagBlind_intros flagBlind_content)

lemma flagBlind_cycleRest:
  "flagBlind (andThen (performReflectionCycle env sid ui c noiseLevel) (\<lambda>u.
     andThen getSelf (\<lambda>this.
     if neuralEngine this \<noteq> None then callEngine (trainStep env ui) else succeed ())))"
  by (intro flagBlind_andThen flagBlind_performReflectionCycle flagBlind_training)

lemma flagBlind_completeCycle: "flagBlind (completeCycle env sid ui c noiseLevel)"
  unfolding completeCycle_def
  by (intro flagBlind_andThen flagBlind_basic flagBlind_performReflectionCycle
      flagBlind_training)

lemma flagBlind_keeps:
  assumes "flagBlind m"
  shows "isGenerating (self (snd (m w))) = isGenerating (self w)"
proof -
  have "m w = (fst (m w), setGenerating (isGenerating (self w)) (snd (m w)))"
    using flagBlindD [OF assms, of "isGenerating (self w)" w]
    by (simp add: setGenerating_same)
  from arg_cong [OF this, of snd]
  have "snd (m w) = setGenerating (isGenerating (self w)) (snd (m w))"
    unfolding snd_conv .
  from arg_cong [OF this, of "\<lambda>x. isGenerating (self x)"]
  show ?thesis unfolding setGenerating_fields by simp
qed

lemma sameButFlag_refl: "sameButFlag res res"
  by (simp add: sameButFlag_def)

lemma sameButFlag_flagged: "sameButFlag (r, setGenerating b w) (r, w)"
  by (simp add: sameButFlag_def setGenerating_twice)

lemma sameButFlag_trans: "sameButFlag a b \<Longrightarrow> sameButFlag b c \<Longrightarrow> sameButFlag a c"
  by (simp add: sameButFlag_def)

lemma flagBlind_upto:
  assumes "flagBlind m" "setGenerating False w = setGenerating False w'"
  shows "sameButFlag (m w) (m w')"
proof -
  from flagBlindD [OF assms(1), of False w] flagBlindD [OF assms(1), of False w'] assms(2)
  show ?thesis by (simp add: sameButFlag_def)
qed

lemma sameButFlag_andThen:
  assumes "sameButFlag (m w) (m' w')" "\<And>a. flagBlind (f a)"
  shows "sameButFlag (andThen m f w) (andThen m' f w')"
proof -
  obtain r w1 where 1: "m w = (r, w1)" by (cases "m w")
  obtain r' w1' where 2: "m' w' = (r', w1')" by (cases "m' w'")
  from assms(1) 1 2 have r: "r' = r" and s: "setGenerating False w1 = setGenerating False w1'"
    by (simp_all add: sameButFlag_def)
  show ?thesis
  proof (cases r)
    case (Inl e)
    with 1 2 r s show ?thesis by (simp add: andThen_def sameButFlag_def)
  next
    case (Inr a)
    with 1 2 r flagBlind_upto [OF assms(2) s, of a] show ?thesis by (simp add: andThen_def)
  qed
qed

lemma cycleBody_complete:
  "cycleBody env sid ui c noiseLevel w
     = (if stopDuring env c
        then (fst (completeCycle env sid ui c noiseLevel w),
              setGenerating False (snd (completeCycle env sid ui c noiseLevel w)))
        else completeCycle env sid ui c noiseLevel w)"
proof -
  let ?rest = "andThen (performReflectionCycle env sid ui c noiseLevel) (\<lambda>u.
     andThen getSelf (\<lambda>this.
     if neuralEngine this \<noteq> None then callEngine (trainStep env ui) else succeed ()))"
  let ?w1 = "w\<lparr>self := (self w)\<lparr>currentCycle := c\<rparr>\<rparr>"
  have cc: "completeCycle env sid ui c noiseLevel w = ?rest ?w1"
    by (simp add: completeCycle_def andThen_def modify_def)
  show ?thesis
  proof (cases "stopDuring env c")
    case False
    then have "cycleBody env sid ui c noiseLevel w = ?rest ?w1"
      by (simp add: cycleBody_def andThen_def modify_def stopRequests_def succeed_def)
    with cc False show ?thesis by simp
  next
    case True
    then have "cycleBody env sid ui c noiseLevel w = ?rest (setGenerating False ?w1)"
      by (simp add: cycleBody_def andThen_def modify_def stopRequests_def stop_def
          setGenerating_def)
    also have "\<dots> = (fst (?rest ?w1), setGenerating False (snd (?rest ?w1)))"
      by (rule flagBlindD [OF flagBlind_cycleRest])
    finally show ?thesis using cc True by simp
  qed
qed

lemma cycleLoop_complete:
  "c \<le> K \<Longrightarrow> K \<le> N \<Longrightarrow> isGenerating (self w) \<Longrightarrow>
   (\<forall>j. c \<le> j \<and> j < K \<longrightarrow> \<not> stopDuring env j) \<Longrightarrow>
   (K < N \<longrightarrow> stopDuring env K) \<Longrightarrow>
   sameButFlag (cycleLoop env sid ui N noiseLevel c w)
     (completeCycles env sid ui noiseLevel [c..K] w)"
proof (induction "nat (K - c)" arbitrary: c w)
  case 0
  then have cK: "c = K" by simp
  then have list: "[c..K] = [c]" by (simp add: upto_rec1)
  obtain r w1 where cc: "completeCycle env sid ui c noiseLevel w = (r, w1)"
    by (cases "completeCycle env sid ui c noiseLevel w")
  define w1' where "w1' = (if stopDuring env c then setGenerating False w1 else w1)"
  from cc have body: "cycleBody env sid ui c noiseLevel w = (r, w1')"
    by (simp add: cycleBody_complete w1'_def)
  have same: "setGenerating False w1' = setGenerating False w1"
    by (simp add: w1'_def setGenerating_twice)
  have cond: "c \<le> N \<and> isGenerating (self w)" using "0.prems"(2,3) cK by simp
  show ?case
  proof (cases r)
    case (Inl e)
    with cond body have "cycleLoop env sid ui N noiseLevel c w = (Inl e, w1')"
      by (subst cycleLoop.simps) simp
    with cc Inl list same show ?thesis by (simp add: sameButFlag_def)
  next
    case (Inr u)
    from flagBlind_keeps [OF flagBlind_completeCycle, of env sid ui c noiseLevel w] cc
      "0.prems"(3)
    have g1: "isGenerating (self w1)" by simp
    have "\<not> (c + 1 \<le> N \<and> isGenerating (self w1'))"
      using "0.prems"(5) cK by (auto simp: w1'_def setGenerating_fields)
    then have "cycleLoop env sid ui N noiseLevel (c + 1) w1' = (Inr (), w1')"
      by (rule cycleLoop_exit)
    with cond body Inr have "cycleLoop env sid ui N noiseLevel c w = (Inr (), w1')"
      by (subst cycleLoop.simps) simp
    with cc Inr list same show ?thesis by (simp add: sameButFlag_def)
  qed
next
  case (Suc n)
  then have lt: "c < K" by simp
  then have list: "[c..K] = c # [c + 1..K]" by (simp add: upto_rec1)
  from Suc.prems(4) lt have ns: "\<not> stopDuring env c" by simp
  obtain r w1 where cc: "completeCycle env sid ui c noiseLevel w = (r, w1)"
    by (cases "completeCycle env sid ui c noiseLevel w")
  with ns have body: "cycleBody env sid ui c noiseLevel w = (r, w1)"
    by (simp add: cycleBody_complete)
  have cond: "c \<le> N \<and> isGenerating (self w)" using Suc.prems(2,3) lt by simp
  show ?case
  proof (cases r)
    case (Inl e)
    with cond body have "cycleLoop env sid ui N noiseLevel c w = (Inl e, w1)"
      by (subst cycleLoop.simps) simp
    with cc Inl list show ?thesis by (simp add: sameButFlag_def)
  next
    case (Inr u)
    from flagBlind_keeps [OF flagBlind_completeCycle, of env sid ui c noiseLevel w] cc
      Suc.prems(3)
    have g1: "isGenerating (self w1)" by simp
    have n: "n = nat (K - (c + 1))" using Suc.hyps(2) by simp
    have stops: "\<forall>j. c + 1 \<le> j \<and> j < K \<longrightarrow> \<not> stopDuring env j" using Suc.prems(4) by simp
    from Suc.hyps(1) [OF n _ Suc.prems(2) g1 stops Suc.prems(5)] lt
    have ih: "sameButFlag (cycleLoop env sid ui N noiseLevel (c + 1) w1)
        (completeCycles env sid ui noiseLevel [c + 1..K] w1)" by simp
    from cond body Inr have "cycleLoop env sid ui N noiseLevel c w
        = cycleLoop env sid ui N noiseLevel (c + 1) w1"
      by (subst cycleLoop.simps) simp
    with ih cc Inr list show ?thesis by simp
  qed
qed

lemma tryCatch_rethrow: "tryCatch m (\<lambda>e. throwError e) w = m w"
  by (cases "m w") (auto simp: tryCatch_def throwError_def split: sum.splits)

lemma createReflection_self:
  "self (snd (createReflection env sid c ty content md w)) = self w"
  by (simp add: createReflection_def storageCall_def split: prod.splits)

lemma beginLoop_generating:
  assumes "beginLoop env sid w = (Inr u, w1)"
  shows "isGenerating (self w1)"
proof -
  from assms have "fst (beginLoop env sid w) = Inr ()" by simp
  from beginLoop_state [OF this] assms show ?thesis by auto
qed

lemma run_complete:
  assumes K0: "0 \<le> K" and KN: "K \<le> N"
    and nostop: "\<forall>j. 0 \<le> j \<and> j < K \<longrightarrow> \<not> stopDuring env j"
    and stopK: "K < N \<longrightarrow> stopDuring env K"
  shows "sameButFlag (startReflectionLoop env sid ui N noiseLevel w)
           (completeRun env sid ui N noiseLevel K w)"
proof -
  let ?md = "[(''noiseLevel'', noiseLevel), (''reflectionCycles'', N)]"
  let ?fin = "\<lambda>u :: unit. generateFinalContent env sid ui"
  obtain r1 w1 where b: "beginLoop env sid w = (r1, w1)" by (cases "beginLoop env sid w")
  show ?thesis
  proof (cases r1)
    case (Inl e)
    with b show ?thesis
      by (simp add: startReflectionLoop_def completeRun_def andThen_def sameButFlag_refl)
  next
    case (Inr u)
    with b have g1: "isGenerating (self w1)" by (auto intro: beginLoop_generating)
    obtain r2 w2 where c: "createReflection env sid 0 ''user_input'' ui ?md w1 = (r2, w2)"
      by (cases "createReflection env sid 0 ''user_input'' ui ?md w1")
    show ?thesis
    proof (cases r2)
      case (Inl e)
      with b Inr c show ?thesis
        by (simp add: startReflectionLoop_def completeRun_def andThen_def tryCatch_def
            throwError_def sameButFlag_refl)
    next
      case row: (Inr row)
      from createReflection_self [of env sid 0 "''user_input''" ui ?md w1] c g1
      have g2: "isGenerating (self w2)" by simp
      define w3 where "w3 = (if stopDuring env 0 then setGenerating False w2 else w2)"
      have st: "stopRequests env 0 w2 = (Inr (), w3)"
        by (simp add: stopRequests_def stop_def modify_def succeed_def w3_def
            setGenerating_def)
      have loops: "sameButFlag (cycleLoop env sid ui N noiseLevel 1 w3)
          (completeCycles env sid ui noiseLevel [1..K] w2)"
      proof (cases "K = 0")
        case True
        have "\<not> (1 \<le> N \<and> isGenerating (self w3))"
          using True stopK by (auto simp: w3_def setGenerating_fields)
        then have "cycleLoop env sid ui N noiseLevel 1 w3 = (Inr (), w3)"
          by (rule cycleLoop_exit)
        with True show ?thesis
          by (simp add: sameButFlag_def w3_def setGenerating_twice)
      next
        case False
        with K0 have K1: "1 \<le> K" by simp
        with nostop have "\<not> stopDuring env 0" by simp
        then have w3: "w3 = w2" by (simp add: w3_def)
        have stops: "\<forall>j. 1 \<le> j \<and> j < K \<longrightarrow> \<not> stopDuring env j" using nostop by simp
        from cycleLoop_complete [OF K1 KN g2 stops stopK] w3 show ?thesis by simp
      qed
      have "sameButFlag (andThen (cycleLoop env sid ui N noiseLevel 1) ?fin w3)
          (andThen (completeCycles env sid ui noiseLevel [1..K]) ?fin w2)"
        using loops by (rule sameButFlag_andThen) (rule flagBlind_generateFinalContent)
      moreover have "startReflectionLoop env sid ui N noiseLevel w
          = andThen (cycleLoop env sid ui N noiseLevel 1) ?fin w3"
        using b Inr c row st
        by (simp add: startReflectionLoop_def tryCatch_rethrow andThen_def)
      moreover have "completeRun env sid ui N noiseLevel K w
          = andThen (completeCycles env sid ui noiseLevel [1..K]) ?fin w2"
        using b Inr c row by (simp add: completeRun_def andThen_def)
      ultimately show ?thesis by simp
    qed
  qed
qed

lemma sameButFlag_state:
  assumes "sameButFlag (r, w') res"
  shows "\<exists>wr. res = (r, wr) \<and> w' = setGenerating (isGenerating (self w')) wr"
proof -
  obtain r' wr where res: "res = (r', wr)" by (cases res)
  with assms have r: "r' = r" and s: "setGenerating False w' = setGenerating False wr"
    by (simp_all add: sameButFlag_def)
  have "w' = setGenerating (isGenerating (self w')) (setGenerating False w')"
    by (simp add: setGenerating_twice setGenerating_same)
  also have "\<dots> = setGenerating (isGenerating (self w')) wr"
    by (simp add: s setGenerating_twice)
  finally show ?thesis using res r by simp
qed


section \<open>Stopping a run\<close>

text \<open>
  Claim C6. stop only clears the flag isGenerating, and the loop reads the flag only in
  its loop test. So when the first stop request arrives during phase k (phase 0 is before
  the first loop test, phase c is cycle c up to the next loop test), and N cycles were
  asked for:
  \<^item> the cycles performed are 1, ..., min k N and no cycle after cycle k is started: these
    are the groups of reflections persisted, one memory insight is persisted per cycle,
    and currentCycle ends at min k N;
  \<^item> the cycle in flight runs to completion and finalization still runs: the run returns
    normally with one GeneratedContent row with isComplete set, and its final state is the
    one the run with min k N complete cycles (\<open>completeRun\<close>: every cycle with its reflection
    cycle and its training step, then finalization, no stop handling anywhere) reaches
    from the same start, except for the flag: the store with all its tables, the messages
    broadcast, the log of storage calls and the neural engine are the same;
  \<^item> the flag is cleared at the end exactly when the stop arrived before the loop had
    ended by itself (k at most N).

  A run of 5 cycles stopped during cycle 2 performs cycles 1 and 2 and no further one
  (stopped during cycle 3 or 4, one or two further ones), and then persists the completed
  row. As in C1, no storage call of the reflection engine fails here.
\<close>

theorem stop_observed_at_loop_test:
  assumes "onlyTrainingCallsFail env"
    and "sessionExists sessionId w"
    and "0 \<le> reflectionCycles"
    and "firstStopDuring env k"
  shows "\<exists>row w' wr. startReflectionLoop env sessionId userInput reflectionCycles noiseLevel w
                   = (Inr (), w')
     \<and> map rowKind (reflections (storage w'))
         = map rowKind (reflections (storage w))
           @ (sessionId, 0, ''user_input'')
             # concat (map (cycleKinds sessionId noiseLevel) [1..min k reflectionCycles])
     \<and> currentCycle (self w') = min k reflectionCycles
     \<and> currentCycle (self w') \<le> k
     \<and> generatedContent (storage w') = generatedContent (storage w) @ [row]
     \<and> g_isComplete row \<and> g_sessionId row = sessionId
     \<and> map i_sessionId (memoryInsights (storage w'))
         = map i_sessionId (memoryInsights (storage w))
           @ concat (map (cycleInsights sessionId) [1..min k reflectionCycles])
     \<and> (isGenerating (self w') \<longleftrightarrow> reflectionCycles < k)
     \<and> completeRun env sessionId userInput reflectionCycles noiseLevel
          (min k reflectionCycles) w = (Inr (), wr)
     \<and> w' = setGenerating (reflectionCycles < k) wr
     \<and> storage w' = storage wr \<and> sent w' = sent wr \<and> dbLog w' = dbLog wr
     \<and> neuralEngine (self w') = neuralEngine (self wr)"
proof -
  from assms(1) have nf: "\<forall>t name. dbFails env t name \<longrightarrow> name \<in> set trainingCalls"
    by (simp add: onlyTrainingCallsFail_def)
  let ?K = "min k reflectionCycles"
  from assms(3,4) have K0: "0 \<le> ?K" and KN: "?K \<le> reflectionCycles"
    by (simp_all add: firstStopDuring_def)
  from assms(4) have nostop: "\<forall>j. 0 \<le> j \<and> j < ?K \<longrightarrow> \<not> stopDuring env j"
    by (simp add: firstStopDuring_def)
  from assms(4) have stopK: "?K < reflectionCycles \<longrightarrow> stopDuring env ?K"
    by (auto simp: firstStopDuring_def min_def)
  from assms(3,4) have flag: "\<not> stopDuring env ?K \<longleftrightarrow> reflectionCycles < k"
    by (auto simp: firstStopDuring_def min_def)
  from startReflectionLoop_run [OF nf assms(2) K0 KN nostop stopK, of userInput noiseLevel]
  obtain row w' where
    run: "startReflectionLoop env sessionId userInput reflectionCycles noiseLevel w
            = (Inr (), w')"
    and facts: "map rowKind (reflections (storage w'))
         = map rowKind (reflections (storage w))
           @ (sessionId, 0, ''user_input'')
             # concat (map (cycleKinds sessionId noiseLevel) [1..?K])"
      "map i_sessionId (memoryInsights (storage w'))
         = map i_sessionId (memoryInsights (storage w))
           @ concat (map (cycleInsights sessionId) [1..?K])"
      "generatedContent (storage w') = generatedContent (storage w) @ [row]"
      "g_isComplete row" "g_sessionId row = sessionId"
      "currentCycle (self w') = ?K"
    and g: "isGenerating (self w') \<longleftrightarrow> \<not> stopDuring env ?K"
    by blast
  from g flag have g': "isGenerating (self w') \<longleftrightarrow> reflectionCycles < k" by simp
  from run_complete [OF K0 KN nostop stopK, of sessionId userInput noiseLevel w] run
  have "sameButFlag (Inr (), w')
      (completeRun env sessionId userInput reflectionCycles noiseLevel ?K w)"
    by simp
  from sameButFlag_state [OF this] g' obtain wr where
    ref: "completeRun env sessionId userInput reflectionCycles noiseLevel ?K w = (Inr (), wr)"
      "w' = setGenerating (reflectionCycles < k) wr"
    by auto
  have le: "currentCycle (self w') \<le> k" using facts(6) by simp
  have same: "storage w' = storage wr" "sent w' = sent wr" "dbLog w' = dbLog wr"
    "neuralEngine (self w') = neuralEngine (self wr)"
    by (simp_all add: ref(2) setGenerating_fields)
  show ?thesis
    by (intro exI [of _ row] exI [of _ w'] exI [of _ wr] conjI)
       (rule run facts g' ref le same)+
qed

theorem stop_observed_at_loop_test_witness:
  "onlyTrainingCallsFail stopEnv \<and> sessionExists 1 idleCtx \<and> firstStopDuring stopEnv 2
   \<and> (\<exists>row w' wr. startReflectionLoop stopEnv 1 ''hi'' 5 0 idleCtx = (Inr (), w')
        \<and> map rowKind (reflections (storage w'))
            = [(1, 0, ''user_input''),
               (1, 1, ''analysis''), (1, 1, ''memory_recall''), (1, 1, ''strategy''),
               (1, 2, ''analysis''), (1, 2, ''memory_recall''), (1, 2, ''refinement'')]
        \<and> currentCycle (self w') = 2
        \<and> generatedContent (storage w') = [row]
        \<and> g_isComplete row \<and> g_sessionId row = 1
        \<and> map i_sessionId (memoryInsights (storage w')) = [1, 1]
        \<and> \<not> isGenerating (self w')
        \<and> completeRun stopEnv 1 ''hi'' 5 0 2 idleCtx = (Inr (), wr)
        \<and> w' = setGenerating False wr
        \<and> storage w' = storage wr \<and> sent w' = sent wr)"
proof -
  from stop_observed_at_loop_test [OF stopEnv_facts(1) idle_session(1) _ stopEnv_facts(2),
      of 5 "''hi''" 0]
  obtain row w' wr where run: "startReflectionLoop stopEnv 1 ''hi'' 5 0 idleCtx = (Inr (), w')"
    and rows: "map rowKind (reflections (storage w'))
         = map rowKind (reflections (storage idleCtx))
           @ (1, 0, ''user_input'') # concat (map (cycleKinds 1 0) [1..min 2 5])"
    and cyc: "currentCycle (self w') = min 2 5"
    and gen: "generatedContent (storage w') = generatedContent (storage idleCtx) @ [row]"
    and row: "g_isComplete row" "g_sessionId row = 1"
    and ins: "map i_sessionId (memoryInsights (storage w'))
         = map i_sessionId (memoryInsights (storage idleCtx))
           @ concat (map (cycleInsights 1) [1..min 2 5])"
    and flag: "isGenerating (self w') \<longleftrightarrow> (5::int) < 2"
    and ref: "completeRun stopEnv 1 ''hi'' 5 0 (min 2 5) idleCtx = (Inr (), wr)"
      "w' = setGenerating ((5::int) < 2) wr"
    and same: "storage w' = storage wr" "sent w' = sent wr"
    by auto
  from rows have rows': "map rowKind (reflections (storage w'))
            = [(1, 0, ''user_input''),
               (1, 1, ''analysis''), (1, 1, ''memory_recall''), (1, 1, ''strategy''),
               (1, 2, ''analysis''), (1, 2, ''memory_recall''), (1, 2, ''refinement'')]"
    by (simp add: idleCtx_def emptyDb_def upto_1_2 cycleKinds_def)
  from cyc have cyc': "currentCycle (self w') = 2" by simp
  from gen have gen': "generatedContent (storage w') = [row]"
    by (simp add: idleCtx_def emptyDb_def)
  from ins have ins': "map i_sessionId (memoryInsights (storage w')) = [1, 1]"
    by (simp add: idleCtx_def emptyDb_def upto_1_2 cycleInsights_def)
  from flag have flag': "\<not> isGenerating (self w')" by simp
  from ref have ref': "completeRun stopEnv 1 ''hi'' 5 0 2 idleCtx = (Inr (), wr)"
    "w' = setGenerating False wr" by simp_all
  show ?thesis
    by (intro conjI exI [of _ w'] exI [of _ row] exI [of _ wr])
       (rule stopEnv_facts idle_session(1) run rows' cyc' gen' row ins' flag' ref' same)+
qed

end

